theory Spec2Isabelle
  imports Complex_Main "HOL-Library.AList" "HOL-Library.Multiset"
    "HOL-Library.Char_ord" "HOL-Library.List_Lexorder"
begin

section \<open>Python values used by the similarity engine\<close>

text \<open>
  The embedding follows \<^verbatim>\<open>src/sim_preprocess.py\<close> (the batch index builder) and
  \<^verbatim>\<open>src/app/irsystem/sim.py\<close> (the scorers and the query function \<^verbatim>\<open>main\<close>).

  \<^item> A Python \<^verbatim>\<open>dict\<close> is an association list in insertion order; \<^verbatim>\<open>d[k] = v\<close> is
    \<^const>\<open>AList.update\<close> (an existing key keeps its place, a new key goes last), which is
    the order Python iterates in. A list that stands for a dict has distinct keys.
  \<^item> An exception is a value \<open>Inl e\<close> of a sum type.
  \<^item> Floating-point numbers are idealised as real numbers (no rounding, no overflow),
    with one exception that the code depends on: numpy does not raise on a division by
    zero, it returns \<^verbatim>\<open>nan\<close> or \<^verbatim>\<open>inf\<close>. The result of a numpy division is therefore
    an \<open>npfloat\<close>, and the arithmetic and comparisons that later touch such a value follow
    IEEE 754 on the non-finite values. The theorems below therefore say which formula,
    which comparison and which keys the code computes, and what a division by zero
    yields. They state no bound on a computed number and no equality between numbers that
    the code computes in different ways: in double precision the cosine of a vector with
    itself can come out as \<^verbatim>\<open>1.0000000000000002\<close>.
\<close>

datatype py_error = KeyError | ZeroDivisionError | ValueError | IndexError

text \<open>\<^verbatim>\<open>d.get(k, default)\<close>; also the read \<^verbatim>\<open>d[k]\<close> of a \<^verbatim>\<open>defaultdict\<close>. The read
  \<^verbatim>\<open>d[k]\<close> of a plain dict is written out where it occurs, with \<^verbatim>\<open>KeyError\<close> for a
  missing key.\<close>

definition dict_get :: "('k \<times> 'v) list \<Rightarrow> 'k \<Rightarrow> 'v \<Rightarrow> 'v" where
  "dict_get d k dflt = (case map_of d k of None \<Rightarrow> dflt | Some v \<Rightarrow> v)"

text \<open>Sequencing of computations that may raise.\<close>

definition and_then :: "'e + 'a \<Rightarrow> ('a \<Rightarrow> 'e + 'b) \<Rightarrow> 'e + 'b" where
  "and_then r f = (case r of Inl e \<Rightarrow> Inl e | Inr v \<Rightarrow> f v)"

datatype npfloat = Num real | PosInf | NegInf | NaN

text \<open>numpy's \<^verbatim>\<open>x / d\<close> on two finite values: a zero divisor gives a non-finite result
  (and a warning), never an exception.\<close>

definition np_div :: "real \<Rightarrow> real \<Rightarrow> npfloat" where
  "np_div x d =
     (if d \<noteq> 0 then Num (x / d)
      else if x = 0 then NaN
      else if 0 < x then PosInf
      else NegInf)"

text \<open>\<^verbatim>\<open>x * w\<close> for a finite Python float \<open>w\<close>, \<^verbatim>\<open>x + y\<close> and \<^verbatim>\<open>-x\<close>.\<close>

fun np_scale :: "npfloat \<Rightarrow> real \<Rightarrow> npfloat" where
  "np_scale (Num a) w = Num (a * w)"
| "np_scale NaN w = NaN"
| "np_scale PosInf w = (if w = 0 then NaN else if 0 < w then PosInf else NegInf)"
| "np_scale NegInf w = (if w = 0 then NaN else if 0 < w then NegInf else PosInf)"

fun np_add :: "npfloat \<Rightarrow> npfloat \<Rightarrow> npfloat" where
  "np_add (Num a) (Num b) = Num (a + b)"
| "np_add NaN y = NaN"
| "np_add x NaN = NaN"
| "np_add PosInf NegInf = NaN"
| "np_add NegInf PosInf = NaN"
| "np_add PosInf y = PosInf"
| "np_add NegInf y = NegInf"
| "np_add x PosInf = PosInf"
| "np_add x NegInf = NegInf"

fun np_neg :: "npfloat \<Rightarrow> npfloat" where
  "np_neg (Num a) = Num (- a)"
| "np_neg PosInf = NegInf"
| "np_neg NegInf = PosInf"
| "np_neg NaN = NaN"

text \<open>\<^verbatim>\<open>x < y\<close> and \<^verbatim>\<open>x == y\<close>: every comparison with \<^verbatim>\<open>nan\<close> is false.\<close>

fun np_lt :: "npfloat \<Rightarrow> npfloat \<Rightarrow> bool" where
  "np_lt (Num a) (Num b) = (a < b)"
| "np_lt NaN y = False"
| "np_lt x NaN = False"
| "np_lt x NegInf = False"
| "np_lt PosInf y = False"
| "np_lt NegInf y = True"
| "np_lt x PosInf = True"

fun np_eq :: "npfloat \<Rightarrow> npfloat \<Rightarrow> bool" where
  "np_eq NaN y = False"
| "np_eq x NaN = False"
| "np_eq x y = (x = y)"

fun is_nan :: "npfloat \<Rightarrow> bool" where
  "is_nan NaN = True"
| "is_nan x = False"

section \<open>The corpus index builder (\<^verbatim>\<open>sim_preprocess.py\<close>)\<close>

type_synonym posting_list = "(string \<times> nat) list"
type_synonym inverted_index = "(string \<times> posting_list) list"

definition AF_COLS :: "string list" where
  "AF_COLS = [''acousticness'', ''danceability'', ''energy'', ''instrumentalness'', ''key'',
     ''liveness'', ''loudness'', ''mode'', ''speechiness'', ''tempo'', ''time_signature'',
     ''valence'']"



text \<open>
  \<^verbatim>\<open>compute_idf\<close>. \<^verbatim>\<open>n_docs\<close> is the number of songs, a natural number. The test
  \<^verbatim>\<open>(df >= min_df) and (df/n_docs <= max_df_ratio)\<close> evaluates the quotient only when the
  first conjunct holds, and the quotient raises when \<^verbatim>\<open>n_docs\<close> is 0. \<^verbatim>\<open>preprocess\<close>
  passes the number of songs of the corpus that the index was built from, so that the
  index is empty when \<^verbatim>\<open>n_docs\<close> is 0. The quotient is compared as a real number; the code
  compares the double nearest to it, which makes a difference only where \<^verbatim>\<open>df/n_docs\<close>
  and \<^verbatim>\<open>max_df_ratio\<close> are within one rounding of each other.
\<close>

fun compute_idf_loop ::
  "inverted_index \<Rightarrow> nat \<Rightarrow> int \<Rightarrow> real \<Rightarrow> (string \<times> real) list
     \<Rightarrow> py_error + (string \<times> real) list" where
  "compute_idf_loop [] n_docs min_df max_df_ratio idf_dict = Inr idf_dict"
| "compute_idf_loop ((word, posting) # rest) n_docs min_df max_df_ratio idf_dict =
     (let df = length posting in
      if int df \<ge> min_df then
        (if n_docs = 0 then Inl ZeroDivisionError
         else if real df / real n_docs \<le> max_df_ratio then
           compute_idf_loop rest n_docs min_df max_df_ratio
             (AList.update word (log 2 (real n_docs / (1 + real df))) idf_dict)
         else compute_idf_loop rest n_docs min_df max_df_ratio idf_dict)
      else compute_idf_loop rest n_docs min_df max_df_ratio idf_dict)"

definition compute_idf ::
  "inverted_index \<Rightarrow> nat \<Rightarrow> int \<Rightarrow> real \<Rightarrow> py_error + (string \<times> real) list" where
  "compute_idf inv_idx n_docs min_df max_df_ratio =
     compute_idf_loop inv_idx n_docs min_df max_df_ratio []"

text \<open>\<^verbatim>\<open>compute_song_norms\<close>: the squared TF-IDF weights are summed per song, then the
  square root of every sum is taken.\<close>

definition compute_song_norms ::
  "inverted_index \<Rightarrow> (string \<times> real) list \<Rightarrow> (string \<times> real) list" where
  "compute_song_norms inv_idx idf_dict =
     map (\<lambda>(k, v). (k, sqrt v))
       (fold (\<lambda>(word, postings) song_norms_dict.
           fold (\<lambda>(uri, tf) song_norms_dict.
              AList.update uri
                (dict_get song_norms_dict uri 0 + (real tf * dict_get idf_dict word 0)\<^sup>2)
                song_norms_dict)
             postings song_norms_dict)
          inv_idx [])"

text \<open>The row norms of \<^verbatim>\<open>get_af_matrix_data\<close>:
  \<^verbatim>\<open>af_song_norms = np.linalg.norm(af_matrix, axis = 1)\<close>.\<close>

definition l2_norm :: "real list \<Rightarrow> real" where
  "l2_norm xs = sqrt (sum_list (map (\<lambda>x. x\<^sup>2) xs))"

definition af_row_norms :: "real list list \<Rightarrow> real list" where
  "af_row_norms af_matrix = map l2_norm af_matrix"

section \<open>The scorers (\<^verbatim>\<open>sim.py\<close>)\<close>

subsection \<open>\<^verbatim>\<open>lyrics_sim\<close>\<close>

text \<open>First loop: the query's TF-IDF dict and the sum of the squared weights.\<close>

definition query_vector ::
  "(string \<times> nat) list \<Rightarrow> (string \<times> real) list \<Rightarrow> (string \<times> real) list \<times> real" where
  "query_vector query_tf_dict idf_dict =
     fold (\<lambda>(t, cnt) (query_tfidf, query_norm).
         case map_of idf_dict t of
           None \<Rightarrow> (query_tfidf, query_norm)
         | Some idf \<Rightarrow>
             (AList.update t (real cnt * idf) query_tfidf, query_norm + (real cnt * idf)\<^sup>2))
       query_tf_dict ([], 0)"

text \<open>Second loop: for every token of the query's TF-IDF dict, every posting adds its
  product to the song's running dot product. \<^verbatim>\<open>idf_dict[t]\<close> is read once per posting;
  \<^verbatim>\<open>inv_idx[t]\<close> reads the \<^verbatim>\<open>defaultdict\<close> that \<^verbatim>\<open>make_inv_idx\<close> built.\<close>

fun score_postings ::
  "posting_list \<Rightarrow> (string \<times> real) list \<Rightarrow> string \<Rightarrow> real \<Rightarrow> (string \<times> real) list
     \<Rightarrow> py_error + (string \<times> real) list" where
  "score_postings [] idf_dict t q_tfidf doc_scores = Inr doc_scores"
| "score_postings ((doc_id, tf) # rest) idf_dict t q_tfidf doc_scores =
     (case map_of idf_dict t of
        None \<Rightarrow> Inl KeyError
      | Some idf \<Rightarrow>
          score_postings rest idf_dict t q_tfidf
            (AList.update doc_id (dict_get doc_scores doc_id 0 + real tf * idf * q_tfidf)
               doc_scores))"

fun score_tokens ::
  "(string \<times> real) list \<Rightarrow> inverted_index \<Rightarrow> (string \<times> real) list \<Rightarrow> (string \<times> real) list
     \<Rightarrow> py_error + (string \<times> real) list" where
  "score_tokens [] inv_idx idf_dict doc_scores = Inr doc_scores"
| "score_tokens ((t, q_tfidf) # rest) inv_idx idf_dict doc_scores =
     (case score_postings (dict_get inv_idx t []) idf_dict t q_tfidf doc_scores of
        Inl e \<Rightarrow> Inl e
      | Inr doc_scores' \<Rightarrow> score_tokens rest inv_idx idf_dict doc_scores')"

text \<open>Third loop: every accumulated score is divided by
  \<^verbatim>\<open>song_norms_dict[doc_id] * query_norm\<close>, a numpy division.\<close>

fun normalize_scores ::
  "(string \<times> real) list \<Rightarrow> (string \<times> real) list \<Rightarrow> real
     \<Rightarrow> py_error + (string \<times> npfloat) list" where
  "normalize_scores [] song_norms_dict query_norm = Inr []"
| "normalize_scores ((doc_id, s) # rest) song_norms_dict query_norm =
     (case map_of song_norms_dict doc_id of
        None \<Rightarrow> Inl KeyError
      | Some n \<Rightarrow>
          (case normalize_scores rest song_norms_dict query_norm of
             Inl e \<Rightarrow> Inl e
           | Inr out \<Rightarrow> Inr ((doc_id, np_div s (n * query_norm)) # out)))"

definition lyrics_sim ::
  "(string \<times> nat) list \<Rightarrow> inverted_index \<Rightarrow> (string \<times> real) list \<Rightarrow> (string \<times> real) list
     \<Rightarrow> py_error + (string \<times> npfloat) list" where
  "lyrics_sim query_lyrics_cnt inv_idx idf_dict song_norms_dict =
     (case query_vector query_lyrics_cnt idf_dict of (query_tfidf, query_norm2) \<Rightarrow>
        (case score_tokens query_tfidf inv_idx idf_dict [] of
           Inl e \<Rightarrow> Inl e
         | Inr doc_scores \<Rightarrow> normalize_scores doc_scores song_norms_dict (sqrt query_norm2)))"

subsection \<open>\<^verbatim>\<open>af_sim\<close>\<close>

text \<open>
  \<^verbatim>\<open>[query_af[x] for x in AF_COLS]\<close> raises on a missing feature. The fitted
  \<^verbatim>\<open>StandardScaler\<close> is an object of an external library: its \<^verbatim>\<open>transform\<close> on one
  row is a parameter (it returns as many values as it is given, one per column of
  \<open>AF_COLS\<close>). \<^verbatim>\<open>af_matrix.dot(v)\<close> needs rows as long as \<open>v\<close>; the elementwise
  division broadcasts an operand of length one and refuses other unequal lengths.
\<close>

fun lookup_all :: "(string \<times> real) list \<Rightarrow> string list \<Rightarrow> py_error + real list" where
  "lookup_all d [] = Inr []"
| "lookup_all d (x # xs) =
     (case map_of d x of
        None \<Rightarrow> Inl KeyError
      | Some v \<Rightarrow> (case lookup_all d xs of Inl e \<Rightarrow> Inl e | Inr vs \<Rightarrow> Inr (v # vs)))"

definition dot :: "real list \<Rightarrow> real list \<Rightarrow> real" where
  "dot xs ys = sum_list (map2 (*) xs ys)"

fun matrix_dot :: "real list list \<Rightarrow> real list \<Rightarrow> py_error + real list" where
  "matrix_dot [] v = Inr []"
| "matrix_dot (row # rows) v =
     (if length row \<noteq> length v then Inl ValueError
      else (case matrix_dot rows v of Inl e \<Rightarrow> Inl e | Inr ds \<Rightarrow> Inr (dot row v # ds)))"

definition np_div_vec :: "real list \<Rightarrow> real list \<Rightarrow> py_error + npfloat list" where
  "np_div_vec xs ds =
     (if length xs = length ds then Inr (map2 np_div xs ds)
      else if length ds = 1 then Inr (map (\<lambda>x. np_div x (hd ds)) xs)
      else if length xs = 1 then Inr (map (\<lambda>d. np_div (hd xs) d) ds)
      else Inl ValueError)"

text \<open>The dict comprehension \<^verbatim>\<open>{ix_to_uri[i]:scores[i] for i in ...}\<close>: the key is
  evaluated before the value.\<close>

fun scores_dict_of ::
  "(nat \<times> string) list \<Rightarrow> npfloat list \<Rightarrow> nat list \<Rightarrow> (string \<times> npfloat) list
     \<Rightarrow> py_error + (string \<times> npfloat) list" where
  "scores_dict_of ix_to_uri scores [] scores_dict = Inr scores_dict"
| "scores_dict_of ix_to_uri scores (i # rest) scores_dict =
     (case map_of ix_to_uri i of
        None \<Rightarrow> Inl KeyError
      | Some u \<Rightarrow>
          if i < length scores then
            scores_dict_of ix_to_uri scores rest (AList.update u (scores ! i) scores_dict)
          else Inl IndexError)"

definition af_sim ::
  "(string \<times> real) list \<Rightarrow> real list list \<Rightarrow> real list \<Rightarrow> (nat \<times> string) list
     \<Rightarrow> (real list \<Rightarrow> real list) \<Rightarrow> nat list option \<Rightarrow> py_error + (string \<times> npfloat) list" where
  "af_sim query_af af_matrix af_song_norms ix_to_uri scaler indices =
     and_then (lookup_all query_af AF_COLS) (\<lambda>raw.
       let query_vec = scaler raw; query_norm = l2_norm query_vec in
       and_then (matrix_dot af_matrix query_vec) (\<lambda>dots.
       and_then (np_div_vec dots (map (\<lambda>n. query_norm * n) af_song_norms)) (\<lambda>scores.
         case indices of
           Some (i # rest) \<Rightarrow> scores_dict_of ix_to_uri scores (i # rest) []
         | _ \<Rightarrow> scores_dict_of ix_to_uri scores [0..<length scores] [])))"

subsection \<open>Fusion and ranking (\<^verbatim>\<open>main\<close>, lines 264 to 285)\<close>

record song_data =
  artist_name :: string
  track_name :: string
  track_id :: string

text \<open>The weighted average
  \<^verbatim>\<open>{k:(af_sim_scores[k] * af_weight) + (lyric_sim_scores[k] * lyrics_weight) for k in lyric_sim_scores}\<close>.\<close>

fun weighted_average ::
  "(string \<times> npfloat) list \<Rightarrow> (string \<times> npfloat) list \<Rightarrow> real \<Rightarrow> (string \<times> npfloat) list
     \<Rightarrow> py_error + (string \<times> npfloat) list" where
  "weighted_average af_sim_scores [] lyrics_weight averaged = Inr averaged"
| "weighted_average af_sim_scores ((k, l) # rest) lyrics_weight averaged =
     (case map_of af_sim_scores k of
        None \<Rightarrow> Inl KeyError
      | Some a \<Rightarrow>
          weighted_average af_sim_scores rest lyrics_weight
            (AList.update k (np_add (np_scale a (1 - lyrics_weight)) (np_scale l lyrics_weight))
               averaged))"

definition averaged_scores ::
  "real \<Rightarrow> (string \<times> npfloat) list \<Rightarrow> (string \<times> npfloat) list
     \<Rightarrow> py_error + (string \<times> npfloat) list" where
  "averaged_scores lyrics_weight af_sim_scores lyric_sim_scores =
     (if lyrics_weight = 0 then Inr af_sim_scores
      else weighted_average af_sim_scores lyric_sim_scores lyrics_weight [])"

text \<open>
  \<^verbatim>\<open>sorted(averaged_scores.items(), key = lambda x: (-x[1], x[0]))\<close>. Python compares
  the key tuples: the first components decide unless they are equal, then the song ids
  do. \<open>py_sorted\<close> is a stable insertion sort with that comparison. Where the comparison
  is a strict linear order on the keys (no score is \<^verbatim>\<open>nan\<close>) every correct sorting
  algorithm returns this list; on a list of two items it is also what CPython returns
  when a score is \<^verbatim>\<open>nan\<close>. With a \<^verbatim>\<open>nan\<close> among four or more items the comparison
  is not an order, and CPython's merge sort can arrange the items differently from an
  insertion sort; nothing below is stated for that case.
\<close>

definition rank_key_lt :: "string \<times> npfloat \<Rightarrow> string \<times> npfloat \<Rightarrow> bool" where
  "rank_key_lt x y =
     (if np_eq (np_neg (snd x)) (np_neg (snd y)) then fst x < fst y
      else np_lt (np_neg (snd x)) (np_neg (snd y)))"

fun insort_by :: "('a \<Rightarrow> 'a \<Rightarrow> bool) \<Rightarrow> 'a \<Rightarrow> 'a list \<Rightarrow> 'a list" where
  "insort_by lt x [] = [x]"
| "insort_by lt x (y # ys) = (if lt y x then y # insort_by lt x ys else x # y # ys)"

definition py_sorted :: "('a \<Rightarrow> 'a \<Rightarrow> bool) \<Rightarrow> 'a list \<Rightarrow> 'a list" where
  "py_sorted lt xs = foldr (insort_by lt) xs []"

text \<open>The scan \<^verbatim>\<open>while i < len(ranked) and i < n_results\<close>; \<open>i\<close> is incremented on
  every pass, whether or not the candidate was appended.\<close>

function scan_ranked ::
  "(string \<times> song_data) list \<Rightarrow> (string \<Rightarrow> string \<Rightarrow> bool) \<Rightarrow> string \<Rightarrow> string \<Rightarrow> string
     \<Rightarrow> (string \<times> npfloat) list \<Rightarrow> nat \<Rightarrow> nat \<Rightarrow> (npfloat \<times> song_data) list
     \<Rightarrow> py_error + (npfloat \<times> song_data) list" where
  "scan_ranked uri_to_song match query_uri query_artist query_name ranked n_results i output =
     (if i < length ranked \<and> i < n_results then
        (case ranked ! i of (uri, score) \<Rightarrow>
           (case map_of uri_to_song uri of
              None \<Rightarrow> Inl KeyError
            | Some song_data \<Rightarrow>
                if uri \<noteq> query_uri \<and> \<not> match (artist_name song_data) query_artist
                     \<and> \<not> match (track_name song_data) query_name
                then scan_ranked uri_to_song match query_uri query_artist query_name ranked
                       n_results (i + 1) (output @ [(score, song_data)])
                else scan_ranked uri_to_song match query_uri query_artist query_name ranked
                       n_results (i + 1) output))
      else Inr output)"
  by pat_completeness auto
termination
  by (relation "measure (\<lambda>(uts, m, qu, qa, qn, ranked, n, i, out). length ranked - i)") auto

declare scan_ranked.simps [simp del]

text \<open>\<^verbatim>\<open>sorted_lyric_sims\<close>: zeros when the lyrics weight is 0, otherwise the lyrical
  score of every returned song, looked up by its \<^verbatim>\<open>track_id\<close>.\<close>

fun lookup_lyric_sims ::
  "(string \<times> npfloat) list \<Rightarrow> (npfloat \<times> song_data) list \<Rightarrow> py_error + npfloat list" where
  "lookup_lyric_sims lyric_sim_scores [] = Inr []"
| "lookup_lyric_sims lyric_sim_scores ((s, d) # rest) =
     (case map_of lyric_sim_scores (track_id d) of
        None \<Rightarrow> Inl KeyError
      | Some v \<Rightarrow>
          (case lookup_lyric_sims lyric_sim_scores rest of
             Inl e \<Rightarrow> Inl e
           | Inr vs \<Rightarrow> Inr (v # vs)))"

subsection \<open>Query resolution and \<^verbatim>\<open>main\<close>\<close>

text \<open>\<^verbatim>\<open>str.split(sep)\<close> for a separator of one character.\<close>

fun split_on :: "char \<Rightarrow> string \<Rightarrow> string list" where
  "split_on c [] = [[]]"
| "split_on c (x # xs) =
     (if x = c then [] # split_on c xs
      else (case split_on c xs of [] \<Rightarrow> [[x]] | w # ws \<Rightarrow> (x # w) # ws))"

record query_af =
  af_values :: "(string \<times> real) list"
  af_artist_name :: string
  af_track_name :: string
  af_uri :: string

text \<open>
  The external collaborators of \<^verbatim>\<open>main\<close>: the Spotify and Genius look-ups
  (\<^verbatim>\<open>get_song_uri\<close>, \<^verbatim>\<open>get_audio_features\<close>, \<^verbatim>\<open>retrieve_lyrics\<close>, each of which returns
  \<^verbatim>\<open>None\<close> when nothing is found), the helpers \<^verbatim>\<open>match\<close> and \<^verbatim>\<open>strip_name\<close> of
  \<^verbatim>\<open>app/irsystem/utils.py\<close>, which is not among the sources, and the string methods
  \<^verbatim>\<open>lower\<close> and \<^verbatim>\<open>strip\<close>.
\<close>

record services =
  get_song_uri :: "string \<Rightarrow> string \<Rightarrow> string option"
  get_audio_features :: "string \<Rightarrow> query_af option"
  retrieve_lyrics :: "string \<Rightarrow> string \<Rightarrow> (string \<times> nat) list option"
  match :: "string \<Rightarrow> string \<Rightarrow> bool"
  strip_name :: "string \<Rightarrow> string"
  py_lower :: "string \<Rightarrow> string"
  py_strip :: "string \<Rightarrow> string"

record vars_dict =
  inv_idx :: inverted_index
  idf_dict :: "(string \<times> real) list"
  song_norms_dict :: "(string \<times> real) list"
  af_matrix :: "real list list"
  af_song_norms :: "real list"
  ix_to_uri :: "(nat \<times> string) list"
  scaler :: "real list \<Rightarrow> real list"
  uri_to_song :: "(string \<times> song_data) list"

text \<open>A run of \<^verbatim>\<open>main\<close> that prints a message and returns \<^verbatim>\<open>None\<close> is \<open>NotFound\<close> with
  the printed message; otherwise \<^verbatim>\<open>main\<close> returns
  \<^verbatim>\<open>query_af, output, sorted_lyric_sims\<close>.\<close>

datatype main_result =
  NotFound string
| Results query_af "(npfloat \<times> song_data) list" "npfloat list"

text \<open>Lines 224 to 232: the query is a URI, or \<^verbatim>\<open>"artist | name"\<close>, which is unpacked
  into exactly two parts. The result is the URI with the artist and the name of the
  query (both empty for a URI query, which reads them from the audio features later).\<close>

definition resolve_query ::
  "services \<Rightarrow> string \<Rightarrow> bool \<Rightarrow> py_error + (string \<times> string \<times> string) option" where
  "resolve_query sv query is_uri =
     (if \<not> is_uri then
        (case map (\<lambda>x. py_lower sv (py_strip sv x)) (split_on CHR ''|'' query) of
           [query_artist, query_name] \<Rightarrow>
             (case get_song_uri sv query_artist (strip_name sv query_name) of
                None \<Rightarrow> Inr None
              | Some query_uri \<Rightarrow>
                  if query_uri = [] then Inr None
                  else Inr (Some (query_uri, query_artist, strip_name sv query_name)))
         | _ \<Rightarrow> Inl ValueError)
      else Inr (Some (query, [], [])))"

text \<open>Lines 243 to 268: the score maps and their fusion. \<open>None\<close> is the return after
  \<^verbatim>\<open>"Song lyrics not found on Genius."\<close>; \<^verbatim>\<open>not query_lyrics_cnt\<close> holds for \<^verbatim>\<open>None\<close>
  and for an empty counter. The second component is \<^verbatim>\<open>lyric_sim_scores\<close>, which exists
  only when the weight is not 0.\<close>

definition similarity_scores ::
  "services \<Rightarrow> vars_dict \<Rightarrow> query_af \<Rightarrow> string \<Rightarrow> string \<Rightarrow> real
     \<Rightarrow> py_error + ((string \<times> npfloat) list \<times> (string \<times> npfloat) list option) option" where
  "similarity_scores sv vars q_af query_artist query_name lyrics_weight =
     (if lyrics_weight = 0 then
        and_then (af_sim (af_values q_af) (af_matrix vars) (af_song_norms vars)
                    (ix_to_uri vars) (scaler vars) None) (\<lambda>af_sim_scores.
        and_then (averaged_scores lyrics_weight af_sim_scores []) (\<lambda>averaged.
          Inr (Some (averaged, None))))
      else
        (case retrieve_lyrics sv query_artist query_name of
           None \<Rightarrow> Inr None
         | Some query_lyrics_cnt \<Rightarrow>
             if query_lyrics_cnt = [] then Inr None
             else
               and_then (lyrics_sim query_lyrics_cnt (inv_idx vars) (idf_dict vars)
                           (song_norms_dict vars)) (\<lambda>lyric_sim_scores.
               and_then (af_sim (af_values q_af) (af_matrix vars) (af_song_norms vars)
                           (ix_to_uri vars) (scaler vars) None) (\<lambda>af_sim_scores.
               and_then (averaged_scores lyrics_weight af_sim_scores lyric_sim_scores)
                 (\<lambda>averaged. Inr (Some (averaged, Some lyric_sim_scores)))))))"

definition sorted_lyric_sims ::
  "(string \<times> npfloat) list option \<Rightarrow> nat \<Rightarrow> (npfloat \<times> song_data) list
     \<Rightarrow> py_error + npfloat list" where
  "sorted_lyric_sims lyric_sim_scores n_results output =
     (case lyric_sim_scores of
        None \<Rightarrow> Inr (replicate n_results (Num 0))
      | Some scores \<Rightarrow> lookup_lyric_sims scores output)"

text \<open>Lines 239 to 241: for a URI query the artist (the first of the comma-separated
  artists) and the name are read from the audio features.\<close>

definition query_names ::
  "services \<Rightarrow> bool \<Rightarrow> query_af \<Rightarrow> string \<Rightarrow> string \<Rightarrow> string \<times> string" where
  "query_names sv is_uri q_af artist0 name0 =
     (if is_uri then
        (py_lower sv (py_strip sv
           (case split_on CHR '','' (af_artist_name q_af) of [] \<Rightarrow> [] | a # rest \<Rightarrow> a)),
         py_lower sv (strip_name sv (af_track_name q_af)))
      else (artist0, name0))"

text \<open>Lines 272 to 281: the sort and the scan.\<close>

definition rank_results ::
  "(string \<times> song_data) list \<Rightarrow> (string \<Rightarrow> string \<Rightarrow> bool) \<Rightarrow> string \<Rightarrow> string \<Rightarrow> string
     \<Rightarrow> (string \<times> npfloat) list \<Rightarrow> nat \<Rightarrow> py_error + (npfloat \<times> song_data) list" where
  "rank_results songs matches query_uri query_artist query_name averaged n_results =
     scan_ranked songs matches query_uri query_artist query_name
       (py_sorted rank_key_lt averaged) n_results 0 []"

definition main ::
  "services \<Rightarrow> string \<Rightarrow> real \<Rightarrow> nat \<Rightarrow> vars_dict \<Rightarrow> bool \<Rightarrow> py_error + main_result" where
  "main sv query lyrics_weight n_results vars is_uri =
     and_then (resolve_query sv query is_uri) (\<lambda>resolved.
       case resolved of
         None \<Rightarrow> Inr (NotFound ''Song not found on Spotify'')
       | Some (query_uri, artist0, name0) \<Rightarrow>
           (case get_audio_features sv query_uri of
              None \<Rightarrow> Inr (NotFound ''Song audio features not found on Spotify'')
            | Some q_af \<Rightarrow>
                (case query_names sv is_uri q_af artist0 name0 of
                   (query_artist, query_name) \<Rightarrow>
                     and_then
                       (similarity_scores sv vars q_af query_artist query_name lyrics_weight)
                       (\<lambda>scores.
                          case scores of
                            None \<Rightarrow> Inr (NotFound ''Song lyrics not found on Genius.'')
                          | Some (averaged, lyric_sim_scores) \<Rightarrow>
                              and_then (rank_results (uri_to_song vars) (match sv) query_uri
                                          query_artist query_name averaged n_results)
                                (\<lambda>output.
                                   and_then (sorted_lyric_sims lyric_sim_scores n_results output)
                                     (\<lambda>sims. Inr (Results q_af output sims)))))))"

section \<open>Closed forms of the accumulation loops\<close>

text \<open>
  The loops of \<^verbatim>\<open>compute_song_norms\<close> and \<^verbatim>\<open>lyrics_sim\<close> all have the shape
  \<^verbatim>\<open>d[k] = d.get(k, 0) + x\<close>. \<open>accumulate\<close> runs that update over a list of pairs;
  \<open>norm_terms\<close>, \<open>score_terms\<close> and \<open>query_weights\<close> list the pairs that the nested loops
  produce, in the order in which they produce them.
\<close>

definition accumulate :: "('k \<times> real) list \<Rightarrow> ('k \<times> real) list \<Rightarrow> ('k \<times> real) list" where
  "accumulate kxs acc = fold (\<lambda>(k, x) acc. AList.update k (dict_get acc k 0 + x) acc) kxs acc"

definition norm_terms :: "inverted_index \<Rightarrow> (string \<times> real) list \<Rightarrow> (string \<times> real) list" where
  "norm_terms ix idf =
     concat (map (\<lambda>(word, ps). map (\<lambda>(uri, tf). (uri, (real tf * dict_get idf word 0)\<^sup>2)) ps) ix)"

definition score_terms ::
  "(string \<times> real) list \<Rightarrow> inverted_index \<Rightarrow> (string \<times> real) list \<Rightarrow> (string \<times> real) list" where
  "score_terms qt ix idf =
     concat (map (\<lambda>(t, q). map (\<lambda>(d, tf). (d, real tf * dict_get idf t 0 * q)) (dict_get ix t [])) qt)"

definition query_weights ::
  "(string \<times> nat) list \<Rightarrow> (string \<times> real) list \<Rightarrow> (string \<times> real) list" where
  "query_weights q idf =
     concat (map (\<lambda>(t, c). case map_of idf t of None \<Rightarrow> [] | Some i \<Rightarrow> [(t, real c * i)]) q)"



section \<open>Example values\<close>

text \<open>Collaborators that find nothing, an empty corpus, and a corpus of three songs; the
  concrete instances of the theorems below are stated on them. \<open>exact_match\<close> stands in
  for \<^verbatim>\<open>match\<close> where the strings compared are already normalised.\<close>

definition exact_match :: "string \<Rightarrow> string \<Rightarrow> bool" where
  "exact_match a b = (a = b)"

definition no_services :: services where
  "no_services =
     \<lparr>get_song_uri = (\<lambda>artist name. None),
      get_audio_features = (\<lambda>u. None),
      retrieve_lyrics = (\<lambda>artist name. None),
      match = exact_match,
      strip_name = (\<lambda>s. s),
      py_lower = (\<lambda>s. s),
      py_strip = (\<lambda>s. s)\<rparr>"

definition empty_vars :: vars_dict where
  "empty_vars =
     \<lparr>inv_idx = [], idf_dict = [], song_norms_dict = [], af_matrix = [], af_song_norms = [],
      ix_to_uri = [], scaler = (\<lambda>v. v), uri_to_song = []\<rparr>"

definition some_features :: query_af where
  "some_features =
     \<lparr>af_values = [], af_artist_name = ''abba'', af_track_name = ''waterloo'',
      af_uri = ''uri:q''\<rparr>"

definition three_songs :: "(string \<times> song_data) list" where
  "three_songs =
     [(''uri:q'', \<lparr>artist_name = ''abba'', track_name = ''waterloo'', track_id = ''uri:q''\<rparr>),
      (''uri:a'', \<lparr>artist_name = ''abba'', track_name = ''fernando'', track_id = ''uri:a''\<rparr>),
      (''uri:b'', \<lparr>artist_name = ''queen'', track_name = ''bicycle race'', track_id = ''uri:b''\<rparr>),
      (''uri:c'', \<lparr>artist_name = ''blondie'', track_name = ''call me'', track_id = ''uri:c''\<rparr>)]"

section \<open>The ranking order of the specification\<close>

text \<open>\<open>ranks_before x y\<close>: the item \<open>x\<close> may stand before \<open>y\<close> in a list that is ordered by
  descending score with ties broken by ascending song id.\<close>

definition ranks_before :: "string \<times> npfloat \<Rightarrow> string \<times> npfloat \<Rightarrow> bool" where
  "ranks_before x y = (np_lt (snd y) (snd x) \<or> (snd x = snd y \<and> fst x \<le> fst y))"

section \<open>The lyrical score as the specification words it\<close>

text \<open>
  A song shares a token with the query when the token is in the query, is IDF-eligible
  (in the IDF table) and has a posting for the song. \<open>shared_products\<close> lists, over the
  shared tokens, the products \<^verbatim>\<open>(song_tf * idf) * (query_count * idf)\<close>; the query norm is
  the square root of the sum of the squared \<^verbatim>\<open>query_count * idf\<close> over the eligible
  query tokens; \<open>cosine_by_spec\<close> divides the sum of the products by
  \<^verbatim>\<open>song_norm * query_norm\<close>.
\<close>

definition shares_token ::
  "(string \<times> nat) list \<Rightarrow> inverted_index \<Rightarrow> (string \<times> real) list \<Rightarrow> string \<Rightarrow> bool" where
  "shares_token q ix idf d =
     (\<exists>t. t \<in> fst ` set q \<and> t \<in> fst ` set idf \<and> d \<in> fst ` set (dict_get ix t []))"

definition shared_products ::
  "(string \<times> nat) list \<Rightarrow> inverted_index \<Rightarrow> (string \<times> real) list \<Rightarrow> string \<Rightarrow> real list" where
  "shared_products q ix idf d =
     concat (map (\<lambda>(t, c).
        case map_of idf t of
          None \<Rightarrow> []
        | Some i \<Rightarrow>
            map (\<lambda>(d', tf). (real tf * i) * (real c * i))
              (filter (\<lambda>(d', tf). d' = d) (dict_get ix t []))) q)"

definition query_norm_by_spec :: "(string \<times> nat) list \<Rightarrow> (string \<times> real) list \<Rightarrow> real" where
  "query_norm_by_spec q idf =
     sqrt (sum_list (map (\<lambda>(t, c). case map_of idf t of None \<Rightarrow> 0 | Some i \<Rightarrow> (real c * i)\<^sup>2) q))"

definition cosine_by_spec ::
  "(string \<times> nat) list \<Rightarrow> inverted_index \<Rightarrow> (string \<times> real) list \<Rightarrow> (string \<times> real) list
     \<Rightarrow> string \<Rightarrow> npfloat" where
  "cosine_by_spec q ix idf norms d =
     np_div (sum_list (shared_products q ix idf d))
       (dict_get norms d 0 * query_norm_by_spec q idf)"

section \<open>Well-formed indexes and TF-IDF weights\<close>

text \<open>
  The data model's invariant of the inverted index: it is a dict (distinct tokens), and a
  song id appears at most once in a posting list; \<^verbatim>\<open>make_inv_idx\<close> builds such indexes.
  \<open>tfidf_weight ix idf d t\<close> is the TF-IDF weight of token \<open>t\<close> in song \<open>d\<close>, with
  \<^verbatim>\<open>idf_dict.get(t, 0)\<close> as in \<^verbatim>\<open>compute_song_norms\<close>.
\<close>

definition index_ok :: "inverted_index \<Rightarrow> bool" where
  "index_ok ix = (distinct (map fst ix) \<and> list_all (\<lambda>p. distinct (map fst (snd p))) ix)"

definition tfidf_weight ::
  "inverted_index \<Rightarrow> (string \<times> real) list \<Rightarrow> string \<Rightarrow> string \<Rightarrow> real" where
  "tfidf_weight ix idf d t =
     (case map_of (dict_get ix t []) d of None \<Rightarrow> 0 | Some tf \<Rightarrow> real tf * dict_get idf t 0)"

section \<open>The quotient of the scorers\<close>

text \<open>\<open>unguarded_cosine dot_product song_norm query_norm\<close>: \<^verbatim>\<open>nan\<close> when one of the two
  norms is zero, and the quotient \<^verbatim>\<open>dot_product / (song_norm * query_norm)\<close> otherwise.
  It is what the unguarded numpy division of the scorers yields for a dot product that is 0
  whenever one of the norms is.\<close>

definition unguarded_cosine :: "real \<Rightarrow> real \<Rightarrow> real \<Rightarrow> npfloat" where
  "unguarded_cosine dot_product song_norm query_norm =
     (if song_norm = 0 \<or> query_norm = 0 then NaN
      else Num (dot_product / (song_norm * query_norm)))"

text \<open>Audio features that are all 1, and a feature matrix whose only row is the zero
  vector (the standardised form of a corpus of identical rows).\<close>

definition unit_features :: "(string \<times> real) list" where
  "unit_features = map (\<lambda>c. (c, 1)) AF_COLS"

definition zero_matrix :: "real list list" where
  "zero_matrix = [replicate 12 0]"

section \<open>The index that \<^verbatim>\<open>make_inv_idx\<close> builds\<close>






section \<open>Auxiliary facts\<close>

subsection \<open>Dictionaries and accumulation\<close>

lemma accumulate_Nil [simp]: "accumulate [] acc = acc"
  by (simp add: accumulate_def)

lemma accumulate_Cons [simp]:
  "accumulate ((k, x) # kxs) acc = accumulate kxs (AList.update k (dict_get acc k 0 + x) acc)"
  by (simp add: accumulate_def)

lemma accumulate_append: "accumulate (xs @ ys) acc = accumulate ys (accumulate xs acc)"
  by (simp add: accumulate_def)

lemma keys_accumulate: "fst ` set (accumulate kxs acc) = fst ` set kxs \<union> fst ` set acc"
proof (induction kxs arbitrary: acc)
  case Nil
  show ?case by simp
next
  case (Cons p kxs)
  obtain k x where p: "p = (k, x)" by (cases p)
  show ?case
    unfolding p accumulate_Cons Cons.IH by (auto simp: dom_update)
qed

lemma distinct_accumulate:
  "distinct (map fst acc) \<Longrightarrow> distinct (map fst (accumulate kxs acc))"
proof (induction kxs arbitrary: acc)
  case Nil
  then show ?case by simp
next
  case (Cons p kxs)
  obtain k x where p: "p = (k, x)" by (cases p)
  show ?case
    unfolding p accumulate_Cons using Cons.prems by (intro Cons.IH) (simp add: distinct_update)
qed

lemma dict_get_update:
  "dict_get (AList.update k v d) k' dflt = (if k' = k then v else dict_get d k' dflt)"
  by (simp add: dict_get_def update_conv')

lemma dict_get_accumulate:
  "dict_get (accumulate kxs acc) k 0 =
     dict_get acc k 0 + sum_list (map snd (filter (\<lambda>p. fst p = k) kxs))"
proof (induction kxs arbitrary: acc)
  case Nil
  show ?case by simp
next
  case (Cons p kxs)
  obtain k' x where p: "p = (k', x)" by (cases p)
  show ?case
    unfolding p accumulate_Cons Cons.IH by (simp add: dict_get_update)
qed

lemma map_of_accumulate:
  "map_of (accumulate kxs acc) k =
     (if k \<in> fst ` set kxs \<union> fst ` set acc then Some (dict_get (accumulate kxs acc) k 0) else None)"
proof (cases "map_of (accumulate kxs acc) k")
  case None
  then have "k \<notin> fst ` set (accumulate kxs acc)" by (simp add: map_of_eq_None_iff)
  then show ?thesis using None by (simp add: keys_accumulate)
next
  case (Some v)
  then have "k \<in> fst ` set (accumulate kxs acc)"
    by (metis map_of_eq_None_iff option.distinct(1))
  then show ?thesis using Some by (simp add: keys_accumulate dict_get_def)
qed

lemma fold_posting_accumulate:
  "fold (\<lambda>(uri, tf) acc. AList.update uri (dict_get acc uri 0 + g tf) acc) ps acc =
     accumulate (map (\<lambda>(uri, tf). (uri, g tf)) ps) acc"
  by (induction ps arbitrary: acc) (auto)

lemma fold_accumulate_concat:
  assumes "\<And>p acc. F p acc = accumulate (G p) acc"
  shows "fold F xs acc = accumulate (concat (map G xs)) acc"
  by (induction xs arbitrary: acc) (simp_all add: assms accumulate_append)

lemma fold_index_accumulate:
  "fold (\<lambda>(word, postings) acc.
      fold (\<lambda>(uri, tf) acc. AList.update uri (dict_get acc uri 0 + g word tf) acc) postings acc)
     ix acc =
   accumulate (concat (map (\<lambda>(word, ps). map (\<lambda>(uri, tf). (uri, g word tf)) ps) ix)) acc"
  by (rule fold_accumulate_concat) (simp add: split_def fold_posting_accumulate [unfolded split_def])

lemma compute_song_norms_accumulate:
  "compute_song_norms ix idf = map (\<lambda>(k, v). (k, sqrt v)) (accumulate (norm_terms ix idf) [])"
  unfolding compute_song_norms_def norm_terms_def
  by (simp add: fold_index_accumulate [where g = "\<lambda>word tf. (real tf * dict_get idf word 0)\<^sup>2"])

lemma score_postings_accumulate:
  "map_of idf t = Some i \<Longrightarrow>
   score_postings ps idf t q ds =
     Inr (accumulate (map (\<lambda>(d, tf). (d, real tf * dict_get idf t 0 * q)) ps) ds)"
  by (induction ps arbitrary: ds) (auto simp: dict_get_def)

lemma score_tokens_accumulate:
  "fst ` set qt \<subseteq> fst ` set idf \<Longrightarrow>
   score_tokens qt ix idf ds = Inr (accumulate (score_terms qt ix idf) ds)"
proof (induction qt arbitrary: ds)
  case Nil
  show ?case by (simp add: score_terms_def)
next
  case (Cons p qt)
  obtain t q where p: "p = (t, q)" by (cases p)
  from Cons.prems p have "t \<in> fst ` set idf" by simp
  then obtain i where i: "map_of idf t = Some i"
    by (metis map_of_eq_None_iff not_Some_eq)
  from Cons.prems have sub: "fst ` set qt \<subseteq> fst ` set idf" by simp
  have "score_terms (p # qt) ix idf =
      map (\<lambda>(d, tf). (d, real tf * dict_get idf t 0 * q)) (dict_get ix t []) @ score_terms qt ix idf"
    by (simp add: score_terms_def p)
  then show ?case
    unfolding p by (simp add: score_postings_accumulate [OF i] Cons.IH [OF sub] accumulate_append)
qed

lemma in_keys_iff: "k \<in> fst ` set d \<longleftrightarrow> (\<exists>v. map_of d k = Some v)"
  by (metis map_of_eq_None_iff not_Some_eq)

lemma query_weights_Nil [simp]: "query_weights [] idf = []"
  by (simp add: query_weights_def)

lemma query_weights_Cons:
  "query_weights ((t, c) # q) idf =
     (case map_of idf t of None \<Rightarrow> [] | Some i \<Rightarrow> [(t, real c * i)]) @ query_weights q idf"
  by (simp add: query_weights_def)

lemma keys_query_weights: "fst ` set (query_weights q idf) = fst ` set q \<inter> fst ` set idf"
proof (induction q)
  case Nil
  show ?case by simp
next
  case (Cons p q)
  obtain t c where p: "p = (t, c)" by (cases p)
  show ?case
    unfolding p query_weights_Cons
    using Cons.IH by (cases "map_of idf t") (auto simp: in_keys_iff)
qed

lemma update_fresh: "k \<notin> fst ` set d \<Longrightarrow> AList.update k v d = d @ [(k, v)]"
  by (induction d) auto

lemma query_vector_fold:
  "distinct (map fst q) \<Longrightarrow> fst ` set qt \<inter> fst ` set q = {} \<Longrightarrow>
   fold (\<lambda>(t, cnt) (query_tfidf, query_norm).
         case map_of idf t of
           None \<Rightarrow> (query_tfidf, query_norm)
         | Some i \<Rightarrow>
             (AList.update t (real cnt * i) query_tfidf, query_norm + (real cnt * i)\<^sup>2))
       q (qt, n) =
   (qt @ query_weights q idf, n + sum_list (map (\<lambda>p. (snd p)\<^sup>2) (query_weights q idf)))"
proof (induction q arbitrary: qt n)
  case Nil
  show ?case by simp
next
  case (Cons p q)
  obtain t c where p: "p = (t, c)" by (cases p)
  from Cons.prems p have fresh: "t \<notin> fst ` set qt" and dq: "distinct (map fst q)"
    and tq: "t \<notin> fst ` set q" and disj: "fst ` set qt \<inter> fst ` set q = {}"
    by auto
  show ?case
  proof (cases "map_of idf t")
    case None
    then show ?thesis
      unfolding p using Cons.IH [OF dq disj] by (simp add: query_weights_Cons)
  next
    case (Some i)
    have disj': "fst ` set (qt @ [(t, real c * i)]) \<inter> fst ` set q = {}"
      using disj tq by auto
    show ?thesis
      unfolding p using Cons.IH [OF dq disj'] Some
      by (simp add: query_weights_Cons update_fresh [OF fresh] algebra_simps)
  qed
qed

lemma query_vector_distinct:
  "distinct (map fst q) \<Longrightarrow>
   query_vector q idf =
     (query_weights q idf, sum_list (map (\<lambda>p. (snd p)\<^sup>2) (query_weights q idf)))"
  unfolding query_vector_def using query_vector_fold [of q "[]" idf 0] by simp

lemma query_vector_keys_fold:
  "fst ` set qt \<subseteq> fst ` set idf \<Longrightarrow>
   fst ` set (fst (fold (\<lambda>(t, cnt) (query_tfidf, query_norm).
         case map_of idf t of
           None \<Rightarrow> (query_tfidf, query_norm)
         | Some i \<Rightarrow>
             (AList.update t (real cnt * i) query_tfidf, query_norm + (real cnt * i)\<^sup>2))
       q (qt, n))) \<subseteq> fst ` set idf"
proof (induction q arbitrary: qt n)
  case Nil
  then show ?case by simp
next
  case (Cons p q)
  obtain t c where p: "p = (t, c)" by (cases p)
  show ?case
  proof (cases "map_of idf t")
    case None
    then show ?thesis unfolding p using Cons.IH [OF Cons.prems] by simp
  next
    case (Some i)
    then have "t \<in> fst ` set idf" by (simp add: in_keys_iff)
    then have "fst ` set (AList.update t (real c * i) qt) \<subseteq> fst ` set idf"
      using Cons.prems by (simp add: dom_update)
    from Cons.IH [OF this] show ?thesis unfolding p using Some by simp
  qed
qed

lemma query_vector_keys: "fst ` set (fst (query_vector q idf)) \<subseteq> fst ` set idf"
  unfolding query_vector_def by (rule query_vector_keys_fold) simp

lemma normalize_scores_total:
  "fst ` set ds \<subseteq> fst ` set norms \<Longrightarrow>
   normalize_scores ds norms qn =
     Inr (map (\<lambda>(d, s). (d, np_div s (dict_get norms d 0 * qn))) ds)"
proof (induction ds)
  case Nil
  show ?case by simp
next
  case (Cons p ds)
  obtain d s where p: "p = (d, s)" by (cases p)
  from Cons.prems p obtain n where n: "map_of norms d = Some n"
    by (auto simp: in_keys_iff)
  from Cons.prems have "fst ` set ds \<subseteq> fst ` set norms" by simp
  from Cons.IH [OF this] show ?case unfolding p using n by (simp add: dict_get_def)
qed

lemma keys_norm_terms: "fst ` set (norm_terms ix idf) = (\<Union>p \<in> set ix. fst ` set (snd p))"
  unfolding norm_terms_def by (force simp: image_iff split_def)

lemma keys_compute_song_norms:
  "fst ` set (compute_song_norms ix idf) = (\<Union>p \<in> set ix. fst ` set (snd p))"
proof -
  have "fst ` set (compute_song_norms ix idf) = fst ` set (accumulate (norm_terms ix idf) [])"
    unfolding compute_song_norms_accumulate by (force simp: image_iff split_def)
  then show ?thesis by (simp add: keys_accumulate keys_norm_terms)
qed

lemma dict_get_index_cases:
  "dict_get ix t [] = [] \<or> (t, dict_get ix t []) \<in> set ix"
  by (cases "map_of ix t") (auto simp: dict_get_def dest: map_of_SomeD)

lemma keys_score_terms:
  "fst ` set (score_terms qt ix idf) \<subseteq> (\<Union>p \<in> set ix. fst ` set (snd p))"
proof
  fix d assume "d \<in> fst ` set (score_terms qt ix idf)"
  then obtain t q where "(t, q) \<in> set qt" and d: "d \<in> fst ` set (dict_get ix t [])"
    unfolding score_terms_def by (force simp: image_iff split_def)
  from dict_get_index_cases [of ix t] d have "(t, dict_get ix t []) \<in> set ix" by auto
  with d show "d \<in> (\<Union>p \<in> set ix. fst ` set (snd p))" by force
qed

subsection \<open>The IDF table\<close>


subsection \<open>Fusion\<close>

lemma np_scale_one: "np_scale l 1 = l"
  by (cases l) simp_all

lemma np_add_zero_left: "np_add (Num 0) l = l"
  by (cases l) simp_all

lemma weighted_average_closed:
  assumes "distinct (map fst lyric)" and "fst ` set lyric \<subseteq> fst ` set af"
    and "fst ` set acc \<inter> fst ` set lyric = {}"
  shows "weighted_average af lyric w acc =
     Inr (acc @ map (\<lambda>(k, l). (k, np_add (np_scale (the (map_of af k)) (1 - w)) (np_scale l w))) lyric)"
  using assms
proof (induction lyric arbitrary: acc)
  case Nil
  show ?case by simp
next
  case (Cons p lyric)
  obtain k l where p: "p = (k, l)" by (cases p)
  from Cons.prems p obtain a where a: "map_of af k = Some a"
    by (auto simp: in_keys_iff)
  from Cons.prems p have fresh: "k \<notin> fst ` set acc" by auto
  let ?v = "np_add (np_scale a (1 - w)) (np_scale l w)"
  have d: "distinct (map fst lyric)" and sub: "fst ` set lyric \<subseteq> fst ` set af"
    and disj: "fst ` set (acc @ [(k, ?v)]) \<inter> fst ` set lyric = {}"
    using Cons.prems p by auto
  from Cons.IH [OF d sub disj] show ?case
    unfolding p using a by (simp add: update_fresh [OF fresh])
qed

subsection \<open>Sorting\<close>

lemma mset_insort_by: "mset (insort_by lt x xs) = add_mset x (mset xs)"
  by (induction xs) auto

lemma mset_py_sorted: "mset (py_sorted lt xs) = mset xs"
  unfolding py_sorted_def by (induction xs) (auto simp: mset_insort_by)

lemma set_insort_by: "set (insort_by lt x xs) = insert x (set xs)"
  by (induction xs) auto

lemma sorted_wrt_insort_by:
  assumes lt_R: "\<And>a b. P a \<Longrightarrow> P b \<Longrightarrow> lt a b \<Longrightarrow> R a b"
    and nlt_R: "\<And>a b. P a \<Longrightarrow> P b \<Longrightarrow> \<not> lt a b \<Longrightarrow> R b a"
    and trans: "\<And>a b c. P a \<Longrightarrow> P b \<Longrightarrow> P c \<Longrightarrow> R a b \<Longrightarrow> R b c \<Longrightarrow> R a c"
  shows "P x \<Longrightarrow> list_all P xs \<Longrightarrow> sorted_wrt R xs \<Longrightarrow> sorted_wrt R (insort_by lt x xs)"
proof (induction xs)
  case Nil
  show ?case by simp
next
  case (Cons y ys)
  from Cons.prems have Py: "P y" and Pys: "list_all P ys" and sys: "sorted_wrt R ys"
    and yys: "\<forall>z \<in> set ys. R y z"
    by simp_all
  show ?case
  proof (cases "lt y x")
    case True
    have "R y x" using lt_R [OF Py Cons.prems(1) True] .
    with yys have "\<forall>z \<in> set (insort_by lt x ys). R y z" by (simp add: set_insort_by)
    moreover have "sorted_wrt R (insort_by lt x ys)"
      using Cons.IH [OF Cons.prems(1) Pys sys] .
    ultimately show ?thesis using True by simp
  next
    case False
    have xy: "R x y" using nlt_R [OF Py Cons.prems(1) False] .
    have "R x z" if "z \<in> set ys" for z
    proof -
      from that Pys have "P z" by (simp add: list_all_iff)
      moreover from that yys have "R y z" by simp
      ultimately show ?thesis using trans [OF Cons.prems(1) Py _ xy] by blast
    qed
    with xy Cons.prems(3) show ?thesis using False by simp
  qed
qed

lemma list_all_insort_by: "list_all P (insort_by lt x xs) \<longleftrightarrow> P x \<and> list_all P xs"
  by (simp add: list_all_iff set_insort_by)

lemma sorted_wrt_py_sorted:
  assumes lt_R: "\<And>a b. P a \<Longrightarrow> P b \<Longrightarrow> lt a b \<Longrightarrow> R a b"
    and nlt_R: "\<And>a b. P a \<Longrightarrow> P b \<Longrightarrow> \<not> lt a b \<Longrightarrow> R b a"
    and trans: "\<And>a b c. P a \<Longrightarrow> P b \<Longrightarrow> P c \<Longrightarrow> R a b \<Longrightarrow> R b c \<Longrightarrow> R a c"
  shows "list_all P xs \<Longrightarrow> sorted_wrt R (py_sorted lt xs) \<and> list_all P (py_sorted lt xs)"
proof (induction xs)
  case Nil
  show ?case by (simp add: py_sorted_def)
next
  case (Cons x xs)
  then have Px: "P x" and IH: "sorted_wrt R (py_sorted lt xs)" "list_all P (py_sorted lt xs)"
    by simp_all
  have "py_sorted lt (x # xs) = insort_by lt x (py_sorted lt xs)"
    by (simp add: py_sorted_def)
  then show ?case
    using sorted_wrt_insort_by [of P lt R x "py_sorted lt xs", OF lt_R nlt_R trans Px IH(2) IH(1)]
      Px IH(2)
    by (simp add: list_all_insort_by)
qed

lemma sorted_wrt_unique:
  assumes antisym: "\<And>a b. P a \<Longrightarrow> P b \<Longrightarrow> R a b \<Longrightarrow> R b a \<Longrightarrow> a = b"
  shows "list_all P xs \<Longrightarrow> sorted_wrt R xs \<Longrightarrow> sorted_wrt R ys \<Longrightarrow> mset xs = mset ys \<Longrightarrow> xs = ys"
proof (induction xs arbitrary: ys)
  case Nil
  then show ?case by simp
next
  case (Cons x xs)
  from Cons.prems(4) obtain y ys' where ys: "ys = y # ys'"
    by (cases ys) auto
  have sets: "set (x # xs) = set (y # ys')"
    using Cons.prems(4) ys by (metis mset_eq_setD)
  have P_all: "\<And>z. z \<in> set (x # xs) \<Longrightarrow> P z"
    using Cons.prems(1) by (auto simp: list_all_iff)
  have "x = y"
  proof (rule ccontr)
    assume neq: "x \<noteq> y"
    from sets neq have "x \<in> set ys'" and "y \<in> set xs" by auto
    then have "R y x" and "R x y"
      using Cons.prems(2,3) ys by auto
    moreover have "P x" "P y" using P_all sets by auto
    ultimately show False using antisym neq by blast
  qed
  moreover have "xs = ys'"
  proof (rule Cons.IH)
    show "list_all P xs" using Cons.prems(1) by simp
    show "sorted_wrt R xs" using Cons.prems(2) by simp
    show "sorted_wrt R ys'" using Cons.prems(3) ys by simp
    show "mset xs = mset ys'" using Cons.prems(4) ys \<open>x = y\<close> by simp
  qed
  ultimately show ?case using ys by simp
qed

lemma np_lt_trans: "np_lt a b \<Longrightarrow> np_lt b c \<Longrightarrow> np_lt a c"
  by (cases a; cases b; cases c) auto

lemma np_lt_asym: "np_lt a b \<Longrightarrow> \<not> np_lt b a"
  by (cases a; cases b) auto

lemma np_lt_irrefl: "\<not> np_lt a a"
  by (cases a) auto

lemma np_lt_total: "\<not> is_nan a \<Longrightarrow> \<not> is_nan b \<Longrightarrow> a \<noteq> b \<Longrightarrow> np_lt a b \<or> np_lt b a"
  by (cases a; cases b) auto

lemma np_eq_iff: "\<not> is_nan a \<Longrightarrow> \<not> is_nan b \<Longrightarrow> np_eq a b \<longleftrightarrow> a = b"
  by (cases a; cases b) auto

lemma np_neg_eq_iff: "np_neg a = np_neg b \<longleftrightarrow> a = b"
  by (cases a; cases b) auto

lemma is_nan_np_neg: "is_nan (np_neg a) \<longleftrightarrow> is_nan a"
  by (cases a) auto

lemma np_lt_np_neg: "np_lt (np_neg a) (np_neg b) \<longleftrightarrow> np_lt b a"
  by (cases a; cases b) auto

lemma rank_key_lt_iff:
  assumes "\<not> is_nan (snd x)" and "\<not> is_nan (snd y)"
  shows "rank_key_lt x y \<longleftrightarrow> np_lt (snd y) (snd x) \<or> (snd x = snd y \<and> fst x < fst y)"
  using assms np_lt_irrefl [of "snd x"]
  by (auto simp: rank_key_lt_def np_eq_iff is_nan_np_neg np_neg_eq_iff np_lt_np_neg)

lemma rank_key_lt_ranks_before:
  "\<not> is_nan (snd x) \<Longrightarrow> \<not> is_nan (snd y) \<Longrightarrow> rank_key_lt x y \<Longrightarrow> ranks_before x y"
  by (auto simp: rank_key_lt_iff ranks_before_def)

lemma not_rank_key_lt_ranks_before:
  assumes "\<not> is_nan (snd x)" and "\<not> is_nan (snd y)" and "\<not> rank_key_lt x y"
  shows "ranks_before y x"
proof (cases "snd x = snd y")
  case True
  with assms show ?thesis by (auto simp: rank_key_lt_iff ranks_before_def)
next
  case False
  with assms np_lt_total [of "snd x" "snd y"] show ?thesis
    by (auto simp: rank_key_lt_iff ranks_before_def)
qed

lemma ranks_before_trans:
  "ranks_before x y \<Longrightarrow> ranks_before y z \<Longrightarrow> ranks_before x z"
  unfolding ranks_before_def using np_lt_trans [of "snd z" "snd y" "snd x"]
  by auto

lemma ranks_before_antisym:
  assumes "ranks_before x y" and "ranks_before y x"
  shows "x = y"
proof -
  from assms np_lt_asym [of "snd x" "snd y"] np_lt_irrefl [of "snd x"]
  have "snd x = snd y" and "fst x \<le> fst y" and "fst y \<le> fst x"
    unfolding ranks_before_def by auto
  then show ?thesis by (simp add: prod_eq_iff)
qed

subsection \<open>The closed form of \<^verbatim>\<open>lyrics_sim\<close>\<close>

lemma sum_sq_query_weights:
  "sum_list (map (\<lambda>p. (snd p)\<^sup>2) (query_weights q idf)) =
     sum_list (map (\<lambda>(t, c). case map_of idf t of None \<Rightarrow> 0 | Some i \<Rightarrow> (real c * i)\<^sup>2) q)"
proof (induction q)
  case Nil
  show ?case by simp
next
  case (Cons p q)
  obtain t c where p: "p = (t, c)" by (cases p)
  show ?case unfolding p using Cons.IH
    by (cases "map_of idf t") (simp_all add: query_weights_Cons)
qed

lemma score_terms_Nil [simp]: "score_terms [] ix idf = []"
  by (simp add: score_terms_def)

lemma score_terms_append:
  "score_terms (xs @ ys) ix idf = score_terms xs ix idf @ score_terms ys ix idf"
  by (simp add: score_terms_def)

lemma score_terms_single:
  "score_terms [(t, x)] ix idf =
     map (\<lambda>(d, tf). (d, real tf * dict_get idf t 0 * x)) (dict_get ix t [])"
  by (simp add: score_terms_def)

lemma filter_posting_products:
  "map snd (filter (\<lambda>p. fst p = d) (map (\<lambda>(d', tf). (d', real tf * i * (real c * i))) ps)) =
     map (\<lambda>(d', tf). (real tf * i) * (real c * i)) (filter (\<lambda>(d', tf). d' = d) ps)"
  by (induction ps) auto

lemma score_terms_shared_products:
  "map snd (filter (\<lambda>p. fst p = d) (score_terms (query_weights q idf) ix idf)) =
     shared_products q ix idf d"
proof (induction q)
  case Nil
  show ?case by (simp add: shared_products_def)
next
  case (Cons p q)
  obtain t c where p: "p = (t, c)" by (cases p)
  have sp: "shared_products (p # q) ix idf d =
      (case map_of idf t of None \<Rightarrow> []
       | Some i \<Rightarrow> map (\<lambda>(d', tf). (real tf * i) * (real c * i))
                     (filter (\<lambda>(d', tf). d' = d) (dict_get ix t []))) @ shared_products q ix idf d"
    by (simp add: shared_products_def p)
  show ?case
  proof (cases "map_of idf t")
    case None
    then show ?thesis unfolding p sp [unfolded p] using Cons.IH
      by (simp add: query_weights_Cons)
  next
    case (Some i)
    then have g: "dict_get idf t 0 = i" by (simp add: dict_get_def)
    have "score_terms (query_weights (p # q) idf) ix idf =
        map (\<lambda>(d', tf). (d', real tf * i * (real c * i))) (dict_get ix t [])
          @ score_terms (query_weights q idf) ix idf"
      unfolding p using Some
      by (simp add: query_weights_Cons score_terms_append [of "[(t, real c * i)]", simplified]
          score_terms_single g)
    then show ?thesis
      unfolding sp using Some Cons.IH by (simp add: filter_posting_products)
  qed
qed

lemma in_keys_score_terms:
  "d \<in> fst ` set (score_terms qt ix idf) \<longleftrightarrow>
     (\<exists>t. t \<in> fst ` set qt \<and> d \<in> fst ` set (dict_get ix t []))"
  unfolding score_terms_def by (force simp: image_iff split_def)

lemma keys_score_terms_query:
  "fst ` set (score_terms (query_weights q idf) ix idf) = {d. shares_token q ix idf d}"
proof (rule set_eqI)
  fix d
  have "d \<in> fst ` set (score_terms (query_weights q idf) ix idf) \<longleftrightarrow>
      (\<exists>t. t \<in> fst ` set (query_weights q idf) \<and> d \<in> fst ` set (dict_get ix t []))"
    by (rule in_keys_score_terms)
  also have "\<dots> \<longleftrightarrow> (\<exists>t. t \<in> fst ` set q \<and> t \<in> fst ` set idf \<and> d \<in> fst ` set (dict_get ix t []))"
    unfolding keys_query_weights by blast
  finally show "d \<in> fst ` set (score_terms (query_weights q idf) ix idf)
      \<longleftrightarrow> d \<in> {d. shares_token q ix idf d}"
    by (simp add: shares_token_def)
qed

lemma map_of_normalized:
  "map_of (map (\<lambda>(d, s). (d, f d s)) ds) k = map_option (f k) (map_of ds k)"
  by (induction ds) auto

lemma lyrics_sim_closed:
  assumes d: "distinct (map fst q)"
    and cover: "(\<Union>p \<in> set ix. fst ` set (snd p)) \<subseteq> fst ` set norms"
  shows "lyrics_sim q ix idf norms =
     Inr (map (\<lambda>(d, s). (d, np_div s (dict_get norms d 0 * query_norm_by_spec q idf)))
            (accumulate (score_terms (query_weights q idf) ix idf) []))"
proof -
  let ?qw = "query_weights q idf"
  have qv: "query_vector q idf = (?qw, sum_list (map (\<lambda>p. (snd p)\<^sup>2) ?qw))"
    by (rule query_vector_distinct [OF d])
  have qn: "sqrt (sum_list (map (\<lambda>p. (snd p)\<^sup>2) ?qw)) = query_norm_by_spec q idf"
    by (simp add: query_norm_by_spec_def sum_sq_query_weights)
  have "fst ` set ?qw \<subseteq> fst ` set idf" by (simp add: keys_query_weights)
  then have st: "score_tokens ?qw ix idf [] = Inr (accumulate (score_terms ?qw ix idf) [])"
    by (rule score_tokens_accumulate)
  have "fst ` set (accumulate (score_terms ?qw ix idf) []) \<subseteq> fst ` set norms"
    using keys_score_terms [of ?qw ix idf] cover by (simp add: keys_accumulate)
  from normalize_scores_total [OF this]
  show ?thesis by (simp add: lyrics_sim_def qv st qn)
qed

lemma lyrics_sim_scores:
  assumes d: "distinct (map fst q)"
    and cover: "(\<Union>p \<in> set ix. fst ` set (snd p)) \<subseteq> fst ` set norms"
    and run: "lyrics_sim q ix idf norms = Inr scores"
  shows "distinct (map fst scores)"
    and "fst ` set scores = {d. shares_token q ix idf d}"
    and "map_of scores k =
           (if shares_token q ix idf k then Some (cosine_by_spec q ix idf norms k) else None)"
proof -
  let ?ds = "accumulate (score_terms (query_weights q idf) ix idf) []"
  let ?f = "\<lambda>d s. np_div s (dict_get norms d 0 * query_norm_by_spec q idf)"
  have scores: "scores = map (\<lambda>(d, s). (d, ?f d s)) ?ds"
    using lyrics_sim_closed [OF d cover, of idf] run by simp
  have fsts: "map fst scores = map fst ?ds"
    unfolding scores by (simp add: split_def comp_def)
  have "distinct (map fst ?ds)" by (rule distinct_accumulate) simp
  then show "distinct (map fst scores)" by (simp only: fsts)
  have keys: "fst ` set ?ds = {d. shares_token q ix idf d}"
    by (simp add: keys_accumulate keys_score_terms_query)
  have "fst ` set scores = set (map fst scores)" by simp
  also have "\<dots> = fst ` set ?ds" by (simp only: fsts) simp
  finally show "fst ` set scores = {d. shares_token q ix idf d}" using keys by simp
  have val: "dict_get ?ds k 0 = sum_list (shared_products q ix idf k)"
    by (simp add: dict_get_accumulate score_terms_shared_products) (simp add: dict_get_def)
  have "map_of scores k = map_option (?f k) (map_of ?ds k)"
    unfolding scores by (rule map_of_normalized)
  also have "map_of ?ds k = (if shares_token q ix idf k then Some (dict_get ?ds k 0) else None)"
    using map_of_accumulate [of "score_terms (query_weights q idf) ix idf" "[]" k]
    by (simp add: keys_score_terms_query)
  finally show "map_of scores k =
           (if shares_token q ix idf k then Some (cosine_by_spec q ix idf norms k) else None)"
    by (simp add: val cosine_by_spec_def)
qed

subsection \<open>The Cauchy-Schwarz inequality and the scores at a zero norm\<close>

lemma cs_step:
  fixes a b A B C :: real
  assumes A: "0 \<le> A" and B: "0 \<le> B" and C: "C\<^sup>2 \<le> A * B"
  shows "(a * b + C)\<^sup>2 \<le> (a\<^sup>2 + A) * (b\<^sup>2 + B)"
proof -
  have "sqrt (C\<^sup>2) \<le> sqrt (A * B)" using C by (rule real_sqrt_le_mono)
  then have absC: "\<bar>C\<bar> \<le> sqrt A * sqrt B" by (simp add: real_sqrt_mult)
  have sA: "(sqrt A)\<^sup>2 = A" and sB: "(sqrt B)\<^sup>2 = B" using A B by simp_all
  have "0 \<le> (\<bar>a\<bar> * sqrt B - \<bar>b\<bar> * sqrt A)\<^sup>2" by simp
  also have "\<dots> = a\<^sup>2 * B + b\<^sup>2 * A - 2 * (\<bar>a\<bar> * \<bar>b\<bar>) * (sqrt A * sqrt B)"
    by (simp add: power2_diff power_mult_distrib sA sB algebra_simps)
  finally have am: "2 * (\<bar>a\<bar> * \<bar>b\<bar>) * (sqrt A * sqrt B) \<le> a\<^sup>2 * B + b\<^sup>2 * A" by simp
  have "2 * (a * b) * C \<le> \<bar>2 * (a * b) * C\<bar>" by (rule abs_ge_self)
  also have "\<dots> = 2 * (\<bar>a\<bar> * \<bar>b\<bar>) * \<bar>C\<bar>" by (simp add: abs_mult)
  also have "\<dots> \<le> 2 * (\<bar>a\<bar> * \<bar>b\<bar>) * (sqrt A * sqrt B)"
    using absC by (intro mult_left_mono) simp_all
  finally have "2 * (a * b) * C \<le> a\<^sup>2 * B + b\<^sup>2 * A" using am by linarith
  then have "(a * b + C)\<^sup>2 \<le> a\<^sup>2 * b\<^sup>2 + (a\<^sup>2 * B + b\<^sup>2 * A) + A * B"
    using C by (simp add: power2_sum power_mult_distrib)
  also have "\<dots> = (a\<^sup>2 + A) * (b\<^sup>2 + B)" by (simp add: algebra_simps)
  finally show ?thesis .
qed

lemma cauchy_schwarz_pairs:
  fixes zs :: "(real \<times> real) list"
  shows "(sum_list (map (\<lambda>z. fst z * snd z) zs))\<^sup>2
     \<le> sum_list (map (\<lambda>z. (fst z)\<^sup>2) zs) * sum_list (map (\<lambda>z. (snd z)\<^sup>2) zs)"
proof (induction zs)
  case Nil
  show ?case by simp
next
  case (Cons z zs)
  have "0 \<le> sum_list (map (\<lambda>z. (fst z)\<^sup>2) zs)" and "0 \<le> sum_list (map (\<lambda>z. (snd z)\<^sup>2) zs)"
    by (rule sum_list_nonneg; auto)+
  from cs_step [OF this Cons.IH, of "fst z" "snd z"] show ?case by simp
qed

lemma abs_le_sqrt_product:
  fixes D N Q :: real
  assumes "D\<^sup>2 \<le> N * Q" and "0 \<le> N" and "0 \<le> Q"
  shows "\<bar>D\<bar> \<le> sqrt N * sqrt Q"
proof -
  have "sqrt (D\<^sup>2) \<le> sqrt (N * Q)" using assms(1) by (rule real_sqrt_le_mono)
  then show ?thesis by (simp add: real_sqrt_mult)
qed

lemma np_div_zero_norm:
  fixes D N Q :: real
  assumes le: "D\<^sup>2 \<le> N * Q" and N: "0 \<le> N" and Q: "0 \<le> Q"
  shows "np_div D (sqrt N * sqrt Q) = unguarded_cosine D (sqrt N) (sqrt Q)"
proof -
  define p where "p = sqrt N * sqrt Q"
  have b: "\<bar>D\<bar> \<le> p" unfolding p_def by (rule abs_le_sqrt_product [OF le N Q])
  have zero: "p = 0 \<longleftrightarrow> sqrt N = 0 \<or> sqrt Q = 0" unfolding p_def by (rule mult_eq_0_iff)
  show ?thesis
  proof (cases "p = 0")
    case True
    with b have D: "D = 0" by linarith
    from True zero have z: "sqrt N = 0 \<or> sqrt Q = 0" by blast
    have "np_div D p = NaN" unfolding np_div_def using True D
      by (simp only: if_True if_False not_True_eq_False simp_thms)
    then show ?thesis using z unfolding p_def unguarded_cosine_def by (simp only: if_True)
  next
    case False
    from False zero have z: "\<not> (sqrt N = 0 \<or> sqrt Q = 0)" by blast
    have "np_div D p = Num (D / p)" unfolding np_div_def using False by (simp only: if_True simp_thms)
    then show ?thesis using z unfolding p_def unguarded_cosine_def by (simp only: if_False)
  qed
qed

lemma sum_filter_key:
  "distinct (map fst ps) \<Longrightarrow>
   sum_list (map (\<lambda>p. g (snd p)) (filter (\<lambda>p. fst p = d) ps)) =
     (case map_of ps d of None \<Rightarrow> 0 | Some v \<Rightarrow> (g v :: real))"
proof (induction ps)
  case Nil
  show ?case by simp
next
  case (Cons p ps)
  obtain k v where p: "p = (k, v)" by (cases p)
  from Cons.prems p have fresh: "k \<notin> fst ` set ps" and d: "distinct (map fst ps)" by auto
  show ?case
  proof (cases "k = d")
    case True
    with fresh have "map_of ps d = None" by (simp add: map_of_eq_None_iff)
    with Cons.IH [OF d] True show ?thesis unfolding p by simp
  next
    case False
    with Cons.IH [OF d] show ?thesis unfolding p by simp
  qed
qed

lemma index_ok_lookup:
  assumes "index_ok ix" and "(t, ps) \<in> set ix"
  shows "dict_get ix t [] = ps" and "distinct (map fst ps)"
proof -
  from assms have "map_of ix t = Some ps" by (simp add: index_ok_def)
  then show "dict_get ix t [] = ps" by (simp add: dict_get_def)
  from assms show "distinct (map fst ps)" by (auto simp: index_ok_def list_all_iff)
qed

lemma index_ok_postings: "index_ok ix \<Longrightarrow> distinct (map fst (dict_get ix t []))"
  using dict_get_index_cases [of ix t] index_ok_lookup(2) [of ix t "dict_get ix t []"]
  by auto

lemma dict_get_sqrt:
  "dict_get (map (\<lambda>(k, v). (k, sqrt v)) acc) d 0 = sqrt (dict_get acc d 0)"
  by (induction acc) (auto simp: dict_get_def)

lemma norm_terms_filter:
  "map snd (filter (\<lambda>p. fst p = d) (norm_terms ix idf)) =
     concat (map (\<lambda>(t, ps). map (\<lambda>p. (real (snd p) * dict_get idf t 0)\<^sup>2)
                               (filter (\<lambda>p. fst p = d) ps)) ix)"
proof (induction ix)
  case Nil
  show ?case by (simp add: norm_terms_def)
next
  case (Cons e ix)
  obtain t ps where e: "e = (t, ps)" by (cases e)
  have one: "map snd (filter (\<lambda>p. fst p = d) (map (\<lambda>(uri, tf). (uri, (real tf * dict_get idf t 0)\<^sup>2)) ps))
      = map (\<lambda>p. (real (snd p) * dict_get idf t 0)\<^sup>2) (filter (\<lambda>p. fst p = d) ps)"
    by (induction ps) auto
  have "norm_terms (e # ix) idf =
      map (\<lambda>(uri, tf). (uri, (real tf * dict_get idf t 0)\<^sup>2)) ps @ norm_terms ix idf"
    by (simp add: norm_terms_def e)
  then show ?case using Cons.IH one by (simp add: e)
qed

lemma sum_list_concat_map:
  "sum_list (concat (map f xs)) = sum_list (map (\<lambda>x. sum_list (f x :: real list)) xs)"
  by (induction xs) simp_all

lemma song_norm_closed:
  assumes ok: "index_ok ix"
  shows "dict_get (compute_song_norms ix idf) d 0 =
     sqrt (sum_list (map (\<lambda>e. (tfidf_weight ix idf d (fst e))\<^sup>2) ix))"
proof -
  have "dict_get (compute_song_norms ix idf) d 0 =
      sqrt (sum_list (map snd (filter (\<lambda>p. fst p = d) (norm_terms ix idf))))"
    by (simp add: compute_song_norms_accumulate dict_get_sqrt dict_get_accumulate)
      (simp add: dict_get_def)
  also have "sum_list (map snd (filter (\<lambda>p. fst p = d) (norm_terms ix idf))) =
      sum_list (map (\<lambda>e. sum_list (map (\<lambda>p. (real (snd p) * dict_get idf (fst e) 0)\<^sup>2)
                               (filter (\<lambda>p. fst p = d) (snd e)))) ix)"
    unfolding norm_terms_filter by (simp add: sum_list_concat_map split_def)
  also have "\<dots> = sum_list (map (\<lambda>e. (tfidf_weight ix idf d (fst e))\<^sup>2) ix)"
  proof (rule arg_cong [where f = sum_list], rule map_cong [OF refl])
    fix e assume e: "e \<in> set ix"
    then have l: "dict_get ix (fst e) [] = snd e" and dd: "distinct (map fst (snd e))"
      using index_ok_lookup [OF ok, of "fst e" "snd e"] by simp_all
    show "sum_list (map (\<lambda>p. (real (snd p) * dict_get idf (fst e) 0)\<^sup>2)
            (filter (\<lambda>p. fst p = d) (snd e))) = (tfidf_weight ix idf d (fst e))\<^sup>2"
      using sum_filter_key [OF dd, of "\<lambda>tf. (real tf * dict_get idf (fst e) 0)\<^sup>2" d]
      by (simp add: tfidf_weight_def l split: option.splits)
  qed
  finally show ?thesis .
qed

lemma dot_closed:
  assumes ok: "index_ok ix"
  shows "sum_list (shared_products q ix idf d) =
     sum_list (map (\<lambda>e. tfidf_weight ix idf d (fst e) * (real (snd e) * dict_get idf (fst e) 0)) q)"
proof -
  have "sum_list (shared_products q ix idf d) =
      sum_list (map (\<lambda>e. sum_list (case map_of idf (fst e) of None \<Rightarrow> []
          | Some i \<Rightarrow> map (\<lambda>(d', tf). (real tf * i) * (real (snd e) * i))
                       (filter (\<lambda>(d', tf). d' = d) (dict_get ix (fst e) [])))) q)"
    unfolding shared_products_def by (simp add: sum_list_concat_map split_def)
  also have "\<dots> = sum_list (map (\<lambda>e. tfidf_weight ix idf d (fst e)
                                  * (real (snd e) * dict_get idf (fst e) 0)) q)"
  proof (rule arg_cong [where f = sum_list], rule map_cong [OF refl])
    fix e assume "e \<in> set q"
    have dd: "distinct (map fst (dict_get ix (fst e) []))" by (rule index_ok_postings [OF ok])
    show "sum_list (case map_of idf (fst e) of None \<Rightarrow> []
          | Some i \<Rightarrow> map (\<lambda>(d', tf). (real tf * i) * (real (snd e) * i))
                       (filter (\<lambda>(d', tf). d' = d) (dict_get ix (fst e) [])))
        = tfidf_weight ix idf d (fst e) * (real (snd e) * dict_get idf (fst e) 0)"
    proof (cases "map_of idf (fst e)")
      case None
      then show ?thesis by (simp add: dict_get_def)
    next
      case (Some i)
      then have g: "dict_get idf (fst e) 0 = i" by (simp add: dict_get_def)
      from sum_filter_key [OF dd, of "\<lambda>tf. (real tf * i) * (real (snd e) * i)" d]
      show ?thesis using Some
        by (simp add: tfidf_weight_def g split_def split: option.splits)
    qed
  qed
  finally show ?thesis .
qed

lemma query_norm_closed:
  "query_norm_by_spec q idf = sqrt (sum_list (map (\<lambda>e. (real (snd e) * dict_get idf (fst e) 0)\<^sup>2) q))"
proof -
  have eq: "(\<lambda>(t, c). case map_of idf t of None \<Rightarrow> 0 | Some i \<Rightarrow> (real c * i)\<^sup>2)
      = (\<lambda>e::string \<times> nat. (real (snd e) * dict_get idf (fst e) 0)\<^sup>2)"
    by (rule ext) (auto simp: dict_get_def split: option.splits)
  show ?thesis unfolding query_norm_by_spec_def eq ..
qed

lemma tfidf_weight_outside: "t \<notin> fst ` set ix \<Longrightarrow> tfidf_weight ix idf d t = 0"
proof -
  assume "t \<notin> fst ` set ix"
  then have "map_of ix t = None" by (simp add: map_of_eq_None_iff)
  then show ?thesis by (simp add: tfidf_weight_def dict_get_def)
qed

lemma weights_sum_le:
  assumes dq: "distinct (map fst q)" and dix: "distinct (map fst ix)"
  shows "sum_list (map (\<lambda>e. (tfidf_weight ix idf d (fst e))\<^sup>2) q)
     \<le> sum_list (map (\<lambda>e. (tfidf_weight ix idf d (fst e))\<^sup>2) ix)"
proof -
  let ?f = "\<lambda>t. (tfidf_weight ix idf d t)\<^sup>2"
  have q: "sum_list (map (\<lambda>e. ?f (fst e)) q) = sum ?f (set (map fst q))"
    using sum_list_distinct_conv_sum_set [OF dq, of ?f] by (simp add: comp_def)
  have i: "sum_list (map (\<lambda>e. ?f (fst e)) ix) = sum ?f (set (map fst ix))"
    using sum_list_distinct_conv_sum_set [OF dix, of ?f] by (simp add: comp_def)
  have "sum ?f (set (map fst q)) = sum ?f (set (map fst q) \<inter> set (map fst ix))"
    by (rule sum.mono_neutral_right) (auto simp: tfidf_weight_outside)
  also have "\<dots> \<le> sum ?f (set (map fst ix))"
    by (rule sum_mono2) auto
  finally show ?thesis using q i by simp
qed

lemma lyric_cauchy_schwarz:
  assumes ok: "index_ok ix" and dq: "distinct (map fst q)"
  shows "(sum_list (shared_products q ix idf d))\<^sup>2
     \<le> sum_list (map (\<lambda>e. (tfidf_weight ix idf d (fst e))\<^sup>2) ix)
        * sum_list (map (\<lambda>e. (real (snd e) * dict_get idf (fst e) 0)\<^sup>2) q)"
proof -
  let ?a = "\<lambda>e. tfidf_weight ix idf d (fst e)"
  let ?b = "\<lambda>e::string \<times> nat. real (snd e) * dict_get idf (fst e) 0"
  have "(sum_list (shared_products q ix idf d))\<^sup>2 = (sum_list (map (\<lambda>e. ?a e * ?b e) q))\<^sup>2"
    by (simp add: dot_closed [OF ok])
  also have "\<dots> \<le> sum_list (map (\<lambda>e. (?a e)\<^sup>2) q) * sum_list (map (\<lambda>e. (?b e)\<^sup>2) q)"
    using cauchy_schwarz_pairs [of "map (\<lambda>e. (?a e, ?b e)) q"] by (simp add: comp_def)
  also have "\<dots> \<le> sum_list (map (\<lambda>e. (?a e)\<^sup>2) ix) * sum_list (map (\<lambda>e. (?b e)\<^sup>2) q)"
  proof (rule mult_right_mono)
    show "sum_list (map (\<lambda>e. (?a e)\<^sup>2) q) \<le> sum_list (map (\<lambda>e. (?a e)\<^sup>2) ix)"
      using weights_sum_le [OF dq, of ix idf d] ok by (simp add: index_ok_def)
    show "0 \<le> sum_list (map (\<lambda>e. (?b e)\<^sup>2) q)" by (rule sum_list_nonneg) auto
  qed
  finally show ?thesis .
qed

lemma lyric_unguarded:
  assumes ok: "index_ok ix" and dq: "distinct (map fst q)"
  shows "cosine_by_spec q ix idf (compute_song_norms ix idf) d =
     unguarded_cosine (sum_list (shared_products q ix idf d))
       (dict_get (compute_song_norms ix idf) d 0) (query_norm_by_spec q idf)"
proof -
  let ?N = "sum_list (map (\<lambda>e. (tfidf_weight ix idf d (fst e))\<^sup>2) ix)"
  let ?Q = "sum_list (map (\<lambda>e::string \<times> nat. (real (snd e) * dict_get idf (fst e) 0)\<^sup>2) q)"
  have N: "0 \<le> ?N" and Q: "0 \<le> ?Q" by (rule sum_list_nonneg; auto)+
  from np_div_zero_norm [OF lyric_cauchy_schwarz [OF ok dq, of idf d] N Q]
  show ?thesis
    by (simp only: cosine_by_spec_def song_norm_closed [OF ok] query_norm_closed)
qed

lemma matrix_dot_closed:
  "matrix_dot m v = Inr ds \<Longrightarrow>
     ds = map (\<lambda>row. dot row v) m \<and> list_all (\<lambda>row. length row = length v) m"
  by (induction m arbitrary: ds) (auto split: if_splits sum.splits)

lemma dot_cauchy_schwarz:
  assumes "length xs = length ys"
  shows "(dot xs ys)\<^sup>2 \<le> sum_list (map (\<lambda>x. x\<^sup>2) xs) * sum_list (map (\<lambda>x. x\<^sup>2) ys)"
proof -
  have a: "map (\<lambda>z. (fst z)\<^sup>2) (zip xs ys) = map (\<lambda>x. x\<^sup>2) xs"
    using assms by (induction xs ys rule: list_induct2) simp_all
  have b: "map (\<lambda>z. (snd z)\<^sup>2) (zip xs ys) = map (\<lambda>x. x\<^sup>2) ys"
    using assms by (induction xs ys rule: list_induct2) simp_all
  have c: "dot xs ys = sum_list (map (\<lambda>z. fst z * snd z) (zip xs ys))"
    by (simp add: dot_def split_def)
  from cauchy_schwarz_pairs [of "zip xs ys"] show ?thesis by (simp only: a b c)
qed

lemma af_unguarded:
  assumes "length row = length v"
  shows "np_div (dot row v) (l2_norm v * l2_norm row) =
     unguarded_cosine (dot row v) (l2_norm row) (l2_norm v)"
proof -
  have N: "0 \<le> sum_list (map (\<lambda>x. x\<^sup>2) row)" and Q: "0 \<le> sum_list (map (\<lambda>x. x\<^sup>2) v)"
    by (rule sum_list_nonneg; auto)+
  from np_div_zero_norm [OF dot_cauchy_schwarz [OF assms] N Q]
  show ?thesis by (simp only: l2_norm_def mult.commute)
qed

lemma scores_dict_of_values:
  "scores_dict_of i2u scores is acc = Inr r \<Longrightarrow> (u, v) \<in> set r \<Longrightarrow>
     (u, v) \<in> set acc \<or> (\<exists>i. i \<in> set is \<and> i < length scores \<and> map_of i2u i = Some u \<and> v = scores ! i)"
proof (induction "is" arbitrary: acc)
  case Nil
  then show ?case by simp
next
  case (Cons i rest)
  from Cons.prems(1) obtain u' where u': "map_of i2u i = Some u'" and lt: "i < length scores"
    and run: "scores_dict_of i2u scores rest (AList.update u' (scores ! i) acc) = Inr r"
    by (auto split: option.splits if_splits)
  from Cons.IH [OF run Cons.prems(2)]
  consider "(u, v) \<in> set (AList.update u' (scores ! i) acc)"
    | "\<exists>j. j \<in> set rest \<and> j < length scores \<and> map_of i2u j = Some u \<and> v = scores ! j"
    by blast
  then show ?case
  proof cases
    case 1
    then have "(u, v) \<in> set acc \<or> (u, v) = (u', scores ! i)"
      by (induction acc) (auto split: if_splits)
    then show ?thesis using u' lt by auto
  next
    case 2
    then show ?thesis by auto
  qed
qed

lemma af_sim_unguarded:
  assumes run: "af_sim qf m (af_row_norms m) i2u sc indices = Inr r" and mem: "(u, v) \<in> set r"
  shows "\<exists>raw i. lookup_all qf AF_COLS = Inr raw \<and> i < length m \<and> map_of i2u i = Some u
           \<and> v = unguarded_cosine (dot (m ! i) (sc raw)) (l2_norm (m ! i)) (l2_norm (sc raw))"
proof -
  from run obtain raw where raw: "lookup_all qf AF_COLS = Inr raw"
    by (cases "lookup_all qf AF_COLS") (simp_all add: af_sim_def and_then_def)
  let ?qv = "sc raw"
  let ?qn = "l2_norm ?qv"
  from run raw obtain dots where dots: "matrix_dot m ?qv = Inr dots"
    by (cases "matrix_dot m ?qv") (simp_all add: af_sim_def and_then_def)
  from matrix_dot_closed [OF dots]
  have dots_eq: "dots = map (\<lambda>row. dot row ?qv) m"
    and rows: "list_all (\<lambda>row. length row = length ?qv) m" by simp_all
  let ?ds = "map (\<lambda>n. ?qn * n) (af_row_norms m)"
  have len: "length dots = length ?ds" by (simp add: dots_eq af_row_norms_def)
  let ?scores = "map2 np_div dots ?ds"
  have div: "np_div_vec dots ?ds = Inr ?scores" using len by (simp add: np_div_vec_def)
  have slen: "length ?scores = length m" by (simp add: dots_eq af_row_norms_def)
  have nth: "?scores ! i = np_div (dot (m ! i) ?qv) (?qn * l2_norm (m ! i))" if "i < length m" for i
    using that by (simp add: dots_eq af_row_norms_def)
  have "af_sim qf m (af_row_norms m) i2u sc indices =
      (case indices of
         Some (i # rest) \<Rightarrow> scores_dict_of i2u ?scores (i # rest) []
       | _ \<Rightarrow> scores_dict_of i2u ?scores [0..<length ?scores] [])"
    using raw dots div by (simp add: af_sim_def and_then_def Let_def del: scores_dict_of.simps)
  with run have "\<exists>is. scores_dict_of i2u ?scores is [] = Inr r"
    by (cases indices; cases "the indices") (auto simp del: scores_dict_of.simps)
  then obtain "is" where sd: "scores_dict_of i2u ?scores is [] = Inr r" ..
  from scores_dict_of_values [OF sd mem]
  obtain i where i: "i < length ?scores" and u: "map_of i2u i = Some u" and v: "v = ?scores ! i"
    by auto
  from i slen have lt: "i < length m" by (simp only:)
  with rows have "length (m ! i) = length ?qv" by (simp add: list_all_length)
  from af_unguarded [OF this]
  have "v = unguarded_cosine (dot (m ! i) ?qv) (l2_norm (m ! i)) ?qn"
    by (simp only: v nth [OF lt])
  with raw lt u show ?thesis by blast
qed

lemma af_sim_zero_row:
  "af_sim unit_features zero_matrix (af_row_norms zero_matrix) [(0, ''uri:a'')] (\<lambda>v. v) None
     = Inr [(''uri:a'', NaN)]"
  by (simp add: af_sim_def and_then_def unit_features_def zero_matrix_def AF_COLS_def
      af_row_norms_def l2_norm_def dot_def np_div_vec_def np_div_def numeral_eq_Suc)

subsection \<open>Self-similarity and the index built from a corpus\<close>



























section \<open>The claims\<close>

text \<open>
  \<^bold>\<open>C10.\<close> \<^verbatim>\<open>compute_song_norms\<close> stores a norm for every song id of every posting
  list of the index (the keys of its result are exactly those song ids), whatever the IDF
  table it is given. Hence, with the norm table built from the index that
  \<^verbatim>\<open>lyrics_sim\<close> queries, every song id that \<^verbatim>\<open>lyrics_sim\<close> accumulates has a norm, and
  \<^verbatim>\<open>lyrics_sim\<close> returns a score map for every query and every IDF table: the lookup
  \<^verbatim>\<open>song_norms_dict[doc_id]\<close> never raises \<^verbatim>\<open>KeyError\<close>.
\<close>

theorem song_norm_lookup_total:
  "(\<Union>p \<in> set ix. fst ` set (snd p)) = fst ` set (compute_song_norms ix idf')
   \<and> (\<exists>scores. lyrics_sim q ix idf (compute_song_norms ix idf') = Inr scores)"
proof
  show "(\<Union>p \<in> set ix. fst ` set (snd p)) = fst ` set (compute_song_norms ix idf')"
    by (simp add: keys_compute_song_norms)
next
  obtain qt n2 where qv: "query_vector q idf = (qt, n2)" by (cases "query_vector q idf")
  have "fst ` set qt \<subseteq> fst ` set idf" using query_vector_keys [of q idf] qv by simp
  then have st: "score_tokens qt ix idf [] = Inr (accumulate (score_terms qt ix idf) [])"
    by (rule score_tokens_accumulate)
  have "fst ` set (accumulate (score_terms qt ix idf) []) \<subseteq> fst ` set (compute_song_norms ix idf')"
    using keys_score_terms [of qt ix idf] by (simp add: keys_accumulate keys_compute_song_norms)
  from normalize_scores_total [OF this]
  show "\<exists>scores. lyrics_sim q ix idf (compute_song_norms ix idf') = Inr scores"
    by (simp add: lyrics_sim_def qv st)
qed



text \<open>
  \<^bold>\<open>C9.\<close> \<^verbatim>\<open>main\<close> ends with a not-found outcome and no ranking at each resolution
  stage: when the artist and title of an \<^verbatim>\<open>"artist | name"\<close> query are not resolved to a
  song (the lookup returns \<^verbatim>\<open>None\<close> or an empty URI); when the resolved song has no audio
  features; and, for a lyrics weight other than 0 (in particular a positive one), when no
  lyrics are found (\<^verbatim>\<open>None\<close> or an empty counter). In the last case the outcome does not
  depend on the corpus variables: no audio-only ranking is computed.
\<close>

theorem main_not_found:
  "(\<not> is_uri \<longrightarrow>
      map (\<lambda>x. py_lower sv (py_strip sv x)) (split_on CHR ''|'' query) = [artist, name] \<longrightarrow>
      (get_song_uri sv artist (strip_name sv name) = None
        \<or> get_song_uri sv artist (strip_name sv name) = Some []) \<longrightarrow>
      main sv query lyrics_weight n_results vars is_uri = Inr (NotFound ''Song not found on Spotify''))
   \<and> (resolve_query sv query is_uri = Inr (Some (query_uri, artist0, name0)) \<longrightarrow>
      get_audio_features sv query_uri = None \<longrightarrow>
      main sv query lyrics_weight n_results vars is_uri =
        Inr (NotFound ''Song audio features not found on Spotify''))
   \<and> (resolve_query sv query is_uri = Inr (Some (query_uri, artist0, name0)) \<longrightarrow>
      get_audio_features sv query_uri = Some q_af \<longrightarrow>
      query_names sv is_uri q_af artist0 name0 = (query_artist, query_name) \<longrightarrow>
      lyrics_weight \<noteq> 0 \<longrightarrow>
      (retrieve_lyrics sv query_artist query_name = None
        \<or> retrieve_lyrics sv query_artist query_name = Some []) \<longrightarrow>
      main sv query lyrics_weight n_results vars is_uri =
        Inr (NotFound ''Song lyrics not found on Genius.''))"
proof (intro conjI impI)
  assume "\<not> is_uri"
    and "map (\<lambda>x. py_lower sv (py_strip sv x)) (split_on CHR ''|'' query) = [artist, name]"
    and "get_song_uri sv artist (strip_name sv name) = None
        \<or> get_song_uri sv artist (strip_name sv name) = Some []"
  then have "resolve_query sv query is_uri = Inr None"
    by (auto simp: resolve_query_def)
  then show "main sv query lyrics_weight n_results vars is_uri
      = Inr (NotFound ''Song not found on Spotify'')"
    by (simp add: main_def and_then_def)
next
  assume "resolve_query sv query is_uri = Inr (Some (query_uri, artist0, name0))"
    and "get_audio_features sv query_uri = None"
  then show "main sv query lyrics_weight n_results vars is_uri
      = Inr (NotFound ''Song audio features not found on Spotify'')"
    by (simp add: main_def and_then_def)
next
  assume r: "resolve_query sv query is_uri = Inr (Some (query_uri, artist0, name0))"
    and f: "get_audio_features sv query_uri = Some q_af"
    and n: "query_names sv is_uri q_af artist0 name0 = (query_artist, query_name)"
    and w: "lyrics_weight \<noteq> 0"
    and l: "retrieve_lyrics sv query_artist query_name = None
        \<or> retrieve_lyrics sv query_artist query_name = Some []"
  from w l have "similarity_scores sv vars q_af query_artist query_name lyrics_weight = Inr None"
    by (auto simp: similarity_scores_def)
  with r f n show "main sv query lyrics_weight n_results vars is_uri
      = Inr (NotFound ''Song lyrics not found on Genius.'')"
    by (simp add: main_def and_then_def)
qed

text \<open>The three stages on collaborators that find nothing.\<close>

theorem main_not_found_witness:
  "main no_services ''abba|waterloo'' 1 5 empty_vars False
     = Inr (NotFound ''Song not found on Spotify'')
   \<and> main no_services ''uri:q'' 1 5 empty_vars True
     = Inr (NotFound ''Song audio features not found on Spotify'')
   \<and> main (no_services\<lparr>get_audio_features := (\<lambda>u. Some some_features)\<rparr>) ''uri:q'' (1/2) 5
        empty_vars True
     = Inr (NotFound ''Song lyrics not found on Genius.'')"
proof (intro conjI)
  show "main no_services ''abba|waterloo'' 1 5 empty_vars False
     = Inr (NotFound ''Song not found on Spotify'')"
    using main_not_found [of False no_services "''abba|waterloo''" "''abba''" "''waterloo''"
        1 5 empty_vars]
    by (simp add: no_services_def)
  show "main no_services ''uri:q'' 1 5 empty_vars True
     = Inr (NotFound ''Song audio features not found on Spotify'')"
    using main_not_found [of True no_services "''uri:q''" _ _ 1 5 empty_vars "''uri:q''" "[]" "[]"]
    by (simp add: no_services_def resolve_query_def)
  show "main (no_services\<lparr>get_audio_features := (\<lambda>u. Some some_features)\<rparr>) ''uri:q'' (1/2) 5
        empty_vars True
     = Inr (NotFound ''Song lyrics not found on Genius.'')"
    using main_not_found [of True "no_services\<lparr>get_audio_features := (\<lambda>u. Some some_features)\<rparr>"
        "''uri:q''" _ _ "1/2" 5 empty_vars "''uri:q''" "[]" "[]" some_features "''abba''" "''waterloo''"]
    by (simp add: no_services_def resolve_query_def query_names_def some_features_def)
qed

text \<open>
  \<^bold>\<open>C2.\<close> The scan keeps a candidate only if its id differs from the query's, its
  artist does not match and its title does not match. A candidate by the query's artist
  with another title is therefore dropped, although the claim (and the comment in the
  source, which speaks of different versions of the queried song) keeps it: for the query
  \<^verbatim>\<open>abba | waterloo\<close>, the song \<^verbatim>\<open>abba | fernando\<close> disappears from the results.
\<close>

theorem same_artist_candidate_removed:
  "rank_results three_songs exact_match ''uri:q'' ''abba'' ''waterloo''
     [(''uri:a'', Num (1/2)), (''uri:b'', Num (1/4))] 5
   = Inr [(Num (1/4), \<lparr>artist_name = ''queen'', track_name = ''bicycle race'', track_id = ''uri:b''\<rparr>)]"
  by (simp add: rank_results_def py_sorted_def rank_key_lt_def three_songs_def exact_match_def
      scan_ranked.simps)

text \<open>
  \<^bold>\<open>C3.\<close> The loop counter advances on every candidate scanned, so a filtered
  candidate uses up one of the \<^verbatim>\<open>n_results\<close> passes: with the query song ranked first,
  two requested results and two other eligible songs, one result is returned, not two.
\<close>

theorem filtered_candidate_consumes_slot:
  "rank_results three_songs exact_match ''uri:q'' ''abba'' ''waterloo''
     [(''uri:q'', Num 1), (''uri:b'', Num (1/2)), (''uri:c'', Num (1/4))] 2
   = Inr [(Num (1/2), \<lparr>artist_name = ''queen'', track_name = ''bicycle race'', track_id = ''uri:b''\<rparr>)]"
  by (simp add: rank_results_def py_sorted_def rank_key_lt_def three_songs_def exact_match_def
      scan_ranked.simps)

text \<open>
  \<^bold>\<open>C4.\<close> As stated the claim fails in two ways. With weight 1, a song whose audio
  score is \<^verbatim>\<open>nan\<close> (what \<^verbatim>\<open>af_sim\<close> returns for a zero norm) gets the fused score
  \<^verbatim>\<open>nan * 0 + lyric * 1 = nan\<close>, not its lyrical score. And a song id of the lyrical map
  that has no audio score makes the comprehension raise \<^verbatim>\<open>KeyError\<close>, so that no fused
  map exists.
\<close>

theorem fused_scores_counterexample:
  "averaged_scores 1 [(''uri:a'', NaN)] [(''uri:a'', Num (1/2))] = Inr [(''uri:a'', NaN)]
   \<and> averaged_scores 1 [] [(''uri:a'', Num (1/2))] = Inl KeyError"
  by (simp add: averaged_scores_def)

text \<open>
  \<^bold>\<open>C4, amended.\<close> For every lyrics weight other than 0: if every song id of the
  lyrical score map (a dict) has an audio score, the fused score map has exactly the song
  ids of the lyrical map, in its order, and the fused score of each is
  \<^verbatim>\<open>audio_score*(1-w) + lyric_score*w\<close> in numpy arithmetic; with weight 1 the fused score
  of a song whose audio score is finite equals its lyrical score. With weight 0 the
  averaged scores are the audio score map itself, and the scores are computed by
  \<^verbatim>\<open>af_sim\<close> alone: neither the lyrics provider nor \<^verbatim>\<open>lyrics_sim\<close> is consulted.
\<close>

theorem fused_scores:
  "(lyrics_weight \<noteq> 0 \<longrightarrow> distinct (map fst lyric) \<longrightarrow> fst ` set lyric \<subseteq> fst ` set af \<longrightarrow>
      (\<exists>fused. averaged_scores lyrics_weight af lyric = Inr fused
         \<and> map fst fused = map fst lyric
         \<and> (\<forall>k a l. map_of af k = Some a \<longrightarrow> map_of lyric k = Some l \<longrightarrow>
               map_of fused k
                 = Some (np_add (np_scale a (1 - lyrics_weight)) (np_scale l lyrics_weight))
               \<and> (lyrics_weight = 1 \<longrightarrow> (\<exists>x. a = Num x) \<longrightarrow> map_of fused k = Some l))))
   \<and> averaged_scores 0 af lyric = Inr af
   \<and> similarity_scores sv vars q_af query_artist query_name 0 =
       and_then (af_sim (af_values q_af) (af_matrix vars) (af_song_norms vars) (ix_to_uri vars)
                   (scaler vars) None)
         (\<lambda>af_sim_scores. Inr (Some (af_sim_scores, None)))"
proof (intro conjI impI)
  assume w: "lyrics_weight \<noteq> 0" and d: "distinct (map fst lyric)"
    and sub: "fst ` set lyric \<subseteq> fst ` set af"
  let ?f = "\<lambda>(k, l). (k, np_add (np_scale (the (map_of af k)) (1 - lyrics_weight))
                          (np_scale l lyrics_weight))"
  let ?fused = "map ?f lyric"
  have run: "averaged_scores lyrics_weight af lyric = Inr ?fused"
    using weighted_average_closed [OF d sub, of "[]" lyrics_weight] w
    by (simp add: averaged_scores_def)
  have keys: "map fst ?fused = map fst lyric"
    by (induction lyric) auto
  have val: "map_of ?fused k
       = Some (np_add (np_scale a (1 - lyrics_weight)) (np_scale l lyrics_weight))"
    if "map_of af k = Some a" and "map_of lyric k = Some l" for k a l
    using that by (induction lyric) (auto split: if_splits)
  have "map_of ?fused k
       = Some (np_add (np_scale a (1 - lyrics_weight)) (np_scale l lyrics_weight))
     \<and> (lyrics_weight = 1 \<longrightarrow> (\<exists>x. a = Num x) \<longrightarrow> map_of ?fused k = Some l)"
    if "map_of af k = Some a" and "map_of lyric k = Some l" for k a l
    using val [OF that] by (auto simp: np_scale_one np_add_zero_left)
  with run keys
  show "\<exists>fused. averaged_scores lyrics_weight af lyric = Inr fused
         \<and> map fst fused = map fst lyric
         \<and> (\<forall>k a l. map_of af k = Some a \<longrightarrow> map_of lyric k = Some l \<longrightarrow>
               map_of fused k
                 = Some (np_add (np_scale a (1 - lyrics_weight)) (np_scale l lyrics_weight))
               \<and> (lyrics_weight = 1 \<longrightarrow> (\<exists>x. a = Num x) \<longrightarrow> map_of fused k = Some l))"
    by blast
next
  show "averaged_scores 0 af lyric = Inr af"
    by (simp add: averaged_scores_def)
next
  show "similarity_scores sv vars q_af query_artist query_name 0 =
       and_then (af_sim (af_values q_af) (af_matrix vars) (af_song_norms vars) (ix_to_uri vars)
                   (scaler vars) None)
         (\<lambda>af_sim_scores. Inr (Some (af_sim_scores, None)))"
    by (simp add: similarity_scores_def averaged_scores_def and_then_def)
qed

text \<open>The amended claim on two audio scores and one lyrical score, with weight 1/4.\<close>

theorem fused_scores_witness:
  "\<exists>fused. averaged_scores (1/4) [(''uri:a'', Num 1), (''uri:b'', Num (1/2))] [(''uri:b'', Num 1)]
            = Inr fused
      \<and> map fst fused = [''uri:b'']
      \<and> map_of fused ''uri:b'' = Some (Num (5/8))"
proof -
  let ?af = "[(''uri:a'', Num 1), (''uri:b'', Num (1/2))]"
  let ?ly = "[(''uri:b'', Num 1)]"
  have w: "(1/4::real) \<noteq> 0" by simp
  have d: "distinct (map fst ?ly)" by simp
  have sub: "fst ` set ?ly \<subseteq> fst ` set ?af" by simp
  note inst = fused_scores [THEN conjunct1, rule_format, OF w d sub]
  from inst obtain fused where run: "averaged_scores (1/4) ?af ?ly = Inr fused"
    and keys: "map fst fused = map fst ?ly"
    and val: "\<forall>k a l. map_of ?af k = Some a \<longrightarrow> map_of ?ly k = Some l \<longrightarrow>
         map_of fused k = Some (np_add (np_scale a (1 - 1/4)) (np_scale l (1/4)))
         \<and> ((1/4::real) = 1 \<longrightarrow> (\<exists>x. a = Num x) \<longrightarrow> map_of fused k = Some l)"
    by (elim exE conjE)
  have a: "map_of ?af ''uri:b'' = Some (Num (1/2))" by simp
  have l: "map_of ?ly ''uri:b'' = Some (Num 1)" by simp
  from val [rule_format, OF a l]
  have "map_of fused ''uri:b'' = Some (Num (5/8))" by simp
  with run keys show ?thesis by simp
qed

text \<open>
  \<^bold>\<open>C5.\<close> As stated the claim fails when a fused score is \<^verbatim>\<open>nan\<close>, which the scorers
  produce for a zero norm: every comparison with \<^verbatim>\<open>nan\<close> is false, so the sort leaves the
  two items below in the order in which the score map lists them. The same scores in two
  insertion orders give two rankings, and the ranking is not in descending order of score.
\<close>

theorem ranking_order_counterexample:
  "py_sorted rank_key_lt [(''uri:a'', NaN), (''uri:b'', Num 1)]
     = [(''uri:a'', NaN), (''uri:b'', Num 1)]
   \<and> py_sorted rank_key_lt [(''uri:b'', Num 1), (''uri:a'', NaN)]
     = [(''uri:b'', Num 1), (''uri:a'', NaN)]
   \<and> \<not> sorted_wrt ranks_before (py_sorted rank_key_lt [(''uri:a'', NaN), (''uri:b'', Num 1)])"
  by (simp add: py_sorted_def rank_key_lt_def ranks_before_def)

text \<open>
  \<^bold>\<open>C5, amended.\<close> Provided no fused score is \<^verbatim>\<open>nan\<close>, the ranked list is a
  permutation of the items of the score map in descending order of fused score, ties
  broken by ascending song id, and it is determined by the scores alone: any other
  listing of the same items is ranked to the identical sequence.
\<close>

theorem ranking_order:
  assumes "list_all (\<lambda>e. \<not> is_nan (snd e)) averaged"
  shows "mset (py_sorted rank_key_lt averaged) = mset averaged
     \<and> sorted_wrt ranks_before (py_sorted rank_key_lt averaged)
     \<and> (\<forall>other. mset other = mset averaged \<longrightarrow>
           py_sorted rank_key_lt other = py_sorted rank_key_lt averaged)"
proof (intro conjI allI impI)
  let ?P = "\<lambda>e::string \<times> npfloat. \<not> is_nan (snd e)"
  show "mset (py_sorted rank_key_lt averaged) = mset averaged"
    by (rule mset_py_sorted)
  have sorted_of: "sorted_wrt ranks_before (py_sorted rank_key_lt xs)
       \<and> list_all ?P (py_sorted rank_key_lt xs)" if "list_all ?P xs" for xs
    using that
    by (rule sorted_wrt_py_sorted [where P = ?P and R = ranks_before and lt = rank_key_lt,
          rotated 3])
      (auto intro: rank_key_lt_ranks_before not_rank_key_lt_ranks_before ranks_before_trans)
  from sorted_of [OF assms]
  show "sorted_wrt ranks_before (py_sorted rank_key_lt averaged)" by simp
  fix other :: "(string \<times> npfloat) list"
  assume m: "mset other = mset averaged"
  then have "set other = set averaged" by (rule mset_eq_setD)
  with assms have "list_all ?P other" by (simp add: list_all_iff)
  note so = sorted_of [OF this] and sa = sorted_of [OF assms]
  show "py_sorted rank_key_lt other = py_sorted rank_key_lt averaged"
  proof (rule sorted_wrt_unique [where P = ?P and R = ranks_before])
    show "a = b" if "ranks_before a b" and "ranks_before b a" for a b :: "string \<times> npfloat"
      using that by (rule ranks_before_antisym)
    show "list_all ?P (py_sorted rank_key_lt other)" using so by simp
    show "sorted_wrt ranks_before (py_sorted rank_key_lt other)" using so by simp
    show "sorted_wrt ranks_before (py_sorted rank_key_lt averaged)" using sa by simp
    show "mset (py_sorted rank_key_lt other) = mset (py_sorted rank_key_lt averaged)"
      by (simp add: mset_py_sorted m)
  qed
qed

text \<open>Three scores with a tie, listed in two orders.\<close>

theorem ranking_order_witness:
  "py_sorted rank_key_lt [(''uri:b'', Num (1/2)), (''uri:c'', Num 1), (''uri:a'', Num (1/2))]
     = [(''uri:c'', Num 1), (''uri:a'', Num (1/2)), (''uri:b'', Num (1/2))]
   \<and> sorted_wrt ranks_before
        (py_sorted rank_key_lt [(''uri:b'', Num (1/2)), (''uri:c'', Num 1), (''uri:a'', Num (1/2))])
   \<and> py_sorted rank_key_lt [(''uri:a'', Num (1/2)), (''uri:b'', Num (1/2)), (''uri:c'', Num 1)]
     = py_sorted rank_key_lt [(''uri:b'', Num (1/2)), (''uri:c'', Num 1), (''uri:a'', Num (1/2))]"
proof -
  let ?xs = "[(''uri:b'', Num (1/2)), (''uri:c'', Num 1), (''uri:a'', Num (1/2))]"
  let ?ys = "[(''uri:a'', Num (1/2)), (''uri:b'', Num (1/2)), (''uri:c'', Num 1)]"
  have P: "list_all (\<lambda>e. \<not> is_nan (snd e)) ?xs" by simp
  have m: "mset ?ys = mset ?xs" by simp
  note inst = ranking_order [OF P]
  have e: "py_sorted rank_key_lt ?xs
     = [(''uri:c'', Num 1), (''uri:a'', Num (1/2)), (''uri:b'', Num (1/2))]"
    by (simp add: py_sorted_def rank_key_lt_def)
  from inst have s: "sorted_wrt ranks_before (py_sorted rank_key_lt ?xs)" by (elim conjE)
  from inst have "\<forall>other. mset other = mset ?xs \<longrightarrow>
           py_sorted rank_key_lt other = py_sorted rank_key_lt ?xs" by (elim conjE)
  then have "py_sorted rank_key_lt ?ys = py_sorted rank_key_lt ?xs"
    using m by (elim allE [where x = ?ys] impE)
  with e s show ?thesis by (intro conjI)
qed

text \<open>
  \<^bold>\<open>C6.\<close> For every query token multiset (a counter, so its tokens are distinct), with
  a norm table that has an entry for every song of the index (as the table built by
  \<^verbatim>\<open>compute_song_norms\<close> has, see C10), \<^verbatim>\<open>lyrics_sim\<close> returns a map whose keys are
  exactly the songs that share at least one IDF-eligible token with the query, and the
  value of each is the sum over the shared IDF-eligible tokens of
  \<^verbatim>\<open>(song_tf * idf) * (query_count * idf)\<close> divided, by numpy's division, by
  \<^verbatim>\<open>song_norm * query_norm\<close>. The accumulation loops of the code are compared with the
  closed sum \<open>cosine_by_spec\<close>.
\<close>

theorem lyrics_sim_map:
  assumes "distinct (map fst q)"
    and "(\<Union>p \<in> set ix. fst ` set (snd p)) \<subseteq> fst ` set norms"
  shows "\<exists>scores. lyrics_sim q ix idf norms = Inr scores
     \<and> distinct (map fst scores)
     \<and> fst ` set scores = {d. shares_token q ix idf d}
     \<and> (\<forall>d. map_of scores d =
           (if shares_token q ix idf d then Some (cosine_by_spec q ix idf norms d) else None))"
proof -
  from lyrics_sim_closed [OF assms, of idf]
  obtain scores where run: "lyrics_sim q ix idf norms = Inr scores" by simp
  from lyrics_sim_scores [OF assms run] run show ?thesis by simp
qed

text \<open>A query for \<^verbatim>\<open>love\<close> against two songs: both share the token, a third does not.\<close>

theorem lyrics_sim_map_witness:
  "\<exists>scores.
      lyrics_sim [(''love'', 1)] [(''love'', [(''A'', 3), (''B'', 1)]), (''you'', [(''A'', 2)])]
        [(''love'', 1), (''you'', 2)] [(''A'', 5), (''B'', 1)] = Inr scores
      \<and> map_of scores ''A'' = Some (Num (3/5))
      \<and> map_of scores ''B'' = Some (Num 1)
      \<and> map_of scores ''C'' = None"
proof -
  let ?q = "[(''love'', 1::nat)]"
  let ?ix = "[(''love'', [(''A'', 3::nat), (''B'', 1)]), (''you'', [(''A'', 2)])]"
  let ?idf = "[(''love'', 1::real), (''you'', 2)]"
  let ?norms = "[(''A'', 5::real), (''B'', 1)]"
  have d: "distinct (map fst ?q)" by simp
  have c: "(\<Union>p \<in> set ?ix. fst ` set (snd p)) \<subseteq> fst ` set ?norms" by simp
  from lyrics_sim_map [OF d c, of ?idf]
  obtain scores where run: "lyrics_sim ?q ?ix ?idf ?norms = Inr scores"
    and val: "\<forall>d. map_of scores d =
           (if shares_token ?q ?ix ?idf d then Some (cosine_by_spec ?q ?ix ?idf ?norms d) else None)"
    by (elim exE conjE)
  have sA: "shares_token ?q ?ix ?idf ''A''" and sB: "shares_token ?q ?ix ?idf ''B''"
    and sC: "\<not> shares_token ?q ?ix ?idf ''C''"
    by (simp_all add: shares_token_def dict_get_def image_iff)
  have qn: "query_norm_by_spec ?q ?idf = 1" by (simp add: query_norm_by_spec_def)
  have cA: "cosine_by_spec ?q ?ix ?idf ?norms ''A'' = Num (3/5)"
    using qn by (simp add: cosine_by_spec_def shared_products_def dict_get_def np_div_def)
  have cB: "cosine_by_spec ?q ?ix ?idf ?norms ''B'' = Num 1"
    using qn by (simp add: cosine_by_spec_def shared_products_def dict_get_def np_div_def)
  from val [rule_format, of "''A''"] sA cA have "map_of scores ''A'' = Some (Num (3/5))" by simp
  moreover from val [rule_format, of "''B''"] sB cB have "map_of scores ''B'' = Some (Num 1)" by simp
  moreover from val [rule_format, of "''C''"] sC have "map_of scores ''C'' = None" by simp
  ultimately show ?thesis using run by (intro exI [where x = scores] conjI)
qed

text \<open>
  \<^bold>\<open>C1.\<close> Neither scorer has a zero-norm guard. In a corpus of two songs a token
  that occurs in one of them has the IDF \<^verbatim>\<open>log2(2/2) = 0\<close>; a query that consists of
  such a token has norm 0, and \<^verbatim>\<open>lyrics_sim\<close> returns \<^verbatim>\<open>0/0 = nan\<close> for the song, not 0.
  \<^verbatim>\<open>af_sim\<close> returns \<^verbatim>\<open>nan\<close> for a row of the feature matrix that is the zero vector.
  Neither raises: the divisions are numpy's.
\<close>

theorem similarity_range_counterexample:
  "compute_idf [(''you'', [(''A'', 2)]), (''love'', [(''B'', 1)])] 2 1 1
     = Inr [(''you'', 0), (''love'', 0)]
   \<and> lyrics_sim [(''you'', 2)] [(''you'', [(''A'', 2)]), (''love'', [(''B'', 1)])]
       [(''you'', 0), (''love'', 0)]
       (compute_song_norms [(''you'', [(''A'', 2)]), (''love'', [(''B'', 1)])]
          [(''you'', 0), (''love'', 0)])
     = Inr [(''A'', NaN)]
   \<and> af_sim unit_features zero_matrix (af_row_norms zero_matrix) [(0, ''uri:a'')] (\<lambda>v. v) None
     = Inr [(''uri:a'', NaN)]"
  by (simp add: af_sim_zero_row)
    (simp add: compute_idf_def lyrics_sim_def query_vector_def compute_song_norms_def
      dict_get_def np_div_def)

text \<open>
  \<^bold>\<open>C1, amended.\<close> With the song norms built by \<^verbatim>\<open>compute_song_norms\<close> from the
  index and IDF table that \<^verbatim>\<open>lyrics_sim\<close> queries (the index well-formed, the query a
  counter), \<^verbatim>\<open>lyrics_sim\<close> returns a score map, and with the row norms of the feature
  matrix that \<^verbatim>\<open>af_sim\<close> is given, every score map that \<^verbatim>\<open>af_sim\<close> returns is such that:
  every similarity whose query norm or song norm is zero is \<^verbatim>\<open>nan\<close>, not 0, and every
  other similarity is the quotient of the dot product by \<^verbatim>\<open>song_norm * query_norm\<close>, a
  finite number. No division raises. No bound is stated for the quotient: the code rounds
  every operation to double precision, and a quotient whose exact value is 1 can come out
  as \<^verbatim>\<open>1.0000000000000002\<close>.
\<close>

theorem similarity_values:
  "(index_ok ix \<longrightarrow> distinct (map fst q) \<longrightarrow>
      (\<exists>scores. lyrics_sim q ix idf (compute_song_norms ix idf) = Inr scores
         \<and> (\<forall>d v. map_of scores d = Some v \<longrightarrow>
               v = unguarded_cosine (sum_list (shared_products q ix idf d))
                     (dict_get (compute_song_norms ix idf) d 0) (query_norm_by_spec q idf))))
   \<and> (af_sim qf m (af_row_norms m) i2u sc indices = Inr af_scores \<longrightarrow> (u, v') \<in> set af_scores \<longrightarrow>
        (\<exists>raw i. lookup_all qf AF_COLS = Inr raw \<and> i < length m \<and> map_of i2u i = Some u
           \<and> v' = unguarded_cosine (dot (m ! i) (sc raw)) (l2_norm (m ! i)) (l2_norm (sc raw))))"
proof (intro conjI impI)
  assume ok: "index_ok ix" and dq: "distinct (map fst q)"
  let ?norms = "compute_song_norms ix idf"
  have cover: "(\<Union>p \<in> set ix. fst ` set (snd p)) \<subseteq> fst ` set ?norms"
    by (simp add: keys_compute_song_norms)
  from lyrics_sim_closed [OF dq cover, of idf]
  obtain scores where run: "lyrics_sim q ix idf ?norms = Inr scores" by simp
  have "v = unguarded_cosine (sum_list (shared_products q ix idf d))
              (dict_get ?norms d 0) (query_norm_by_spec q idf)"
    if "map_of scores d = Some v" for d v
  proof -
    from lyrics_sim_scores(3) [OF dq cover run, of d] that
    have "v = cosine_by_spec q ix idf ?norms d" by (simp split: if_splits)
    then show ?thesis by (simp only: lyric_unguarded [OF ok dq])
  qed
  with run show "\<exists>scores. lyrics_sim q ix idf ?norms = Inr scores
         \<and> (\<forall>d v. map_of scores d = Some v \<longrightarrow>
               v = unguarded_cosine (sum_list (shared_products q ix idf d))
                     (dict_get ?norms d 0) (query_norm_by_spec q idf))"
    by blast
next
  assume "af_sim qf m (af_row_norms m) i2u sc indices = Inr af_scores" and "(u, v') \<in> set af_scores"
  then show "\<exists>raw i. lookup_all qf AF_COLS = Inr raw \<and> i < length m \<and> map_of i2u i = Some u
           \<and> v' = unguarded_cosine (dot (m ! i) (sc raw)) (l2_norm (m ! i)) (l2_norm (sc raw))"
    by (rule af_sim_unguarded)
qed

text \<open>One song with a unit lyrical norm, and the zero row of the audio matrix.\<close>

theorem similarity_values_witness:
  "(\<exists>scores. lyrics_sim [(''love'', 1)] [(''love'', [(''A'', 3), (''B'', 1)])] [(''love'', 1)]
        (compute_song_norms [(''love'', [(''A'', 3), (''B'', 1)])] [(''love'', 1)]) = Inr scores
      \<and> map_of scores ''B'' = Some (Num 1)
      \<and> Num 1 = unguarded_cosine
            (sum_list (shared_products [(''love'', 1)] [(''love'', [(''A'', 3), (''B'', 1)])]
                         [(''love'', 1)] ''B''))
            (dict_get (compute_song_norms [(''love'', [(''A'', 3), (''B'', 1)])] [(''love'', 1)]) ''B'' 0)
            (query_norm_by_spec [(''love'', 1)] [(''love'', 1)]))
   \<and> (\<exists>raw i. lookup_all unit_features AF_COLS = Inr raw \<and> i < length zero_matrix
         \<and> map_of [(0, ''uri:a'')] i = Some ''uri:a''
         \<and> NaN = unguarded_cosine (dot (zero_matrix ! i) raw) (l2_norm (zero_matrix ! i))
                    (l2_norm raw))"
proof
  let ?q = "[(''love'', 1::nat)]"
  let ?ix = "[(''love'', [(''A'', 3::nat), (''B'', 1)])]"
  let ?idf = "[(''love'', 1::real)]"
  have ok: "index_ok ?ix" by (simp add: index_ok_def)
  have dq: "distinct (map fst ?q)" by simp
  from similarity_values [THEN conjunct1, rule_format, OF ok dq, of ?idf]
  obtain scores where run: "lyrics_sim ?q ?ix ?idf (compute_song_norms ?ix ?idf) = Inr scores"
    and rng: "\<forall>d v. map_of scores d = Some v \<longrightarrow>
               v = unguarded_cosine (sum_list (shared_products ?q ?ix ?idf d))
                     (dict_get (compute_song_norms ?ix ?idf) d 0) (query_norm_by_spec ?q ?idf)"
    by (elim exE conjE)
  have "lyrics_sim ?q ?ix ?idf (compute_song_norms ?ix ?idf)
      = Inr [(''A'', Num (3 / sqrt 9)), (''B'', Num 1)]"
    by (simp add: lyrics_sim_def query_vector_def compute_song_norms_def dict_get_def np_div_def)
  with run have B: "map_of scores ''B'' = Some (Num 1)" by auto
  from rng [rule_format, OF B] run B
  show "\<exists>scores. lyrics_sim ?q ?ix ?idf (compute_song_norms ?ix ?idf) = Inr scores
      \<and> map_of scores ''B'' = Some (Num 1)
      \<and> Num 1 = unguarded_cosine (sum_list (shared_products ?q ?ix ?idf ''B''))
            (dict_get (compute_song_norms ?ix ?idf) ''B'' 0) (query_norm_by_spec ?q ?idf)"
    by (intro exI [where x = scores] conjI)
next
  have run: "af_sim unit_features zero_matrix (af_row_norms zero_matrix) [(0, ''uri:a'')] (\<lambda>v. v) None
     = Inr [(''uri:a'', NaN)]"
    by (rule af_sim_zero_row)
  have mem: "(''uri:a'', NaN) \<in> set [(''uri:a'', NaN)]" by simp
  from similarity_values [THEN conjunct2, rule_format, OF run mem]
  show "\<exists>raw i. lookup_all unit_features AF_COLS = Inr raw \<and> i < length zero_matrix
         \<and> map_of [(0, ''uri:a'')] i = Some ''uri:a''
         \<and> NaN = unguarded_cosine (dot (zero_matrix ! i) raw) (l2_norm (zero_matrix ! i))
                    (l2_norm raw)"
    by simp
qed




end
